theory Spec2Isabelle
  imports Main "HOL-Library.Word"
begin

unbundle bit_operations_syntax

section \<open>Data: bytes, strings and cells\<close>

text \<open>
  A Python \<open>bytes\<close> object is a list of bytes. A Python \<open>str\<close> and a Spark string are
  sequences of Unicode code points, so that \<open>substr\<close> counts characters and
  \<open>encode("utf-8")\<close> is visible. An Isabelle string literal stands for its ASCII code
  points through \<open>str\<close>.
\<close>

type_synonym byte = "8 word"

type_synonym pystr = "nat list"

definition str :: "string \<Rightarrow> pystr" where
  "str cs = map of_char cs"

text \<open>
  A cell of a DataFrame read by Auto Loader with \<open>cloudFiles.inferColumnTypes\<close>: a null,
  a string, a whole number or a boolean. Floating-point and timestamp columns are outside
  this development.
\<close>

datatype cell = Null | StringV pystr | LongV int | BooleanV bool

section \<open>UTF-8\<close>

definition surrogate :: "nat \<Rightarrow> bool" where
  "surrogate c \<longleftrightarrow> 0xD800 \<le> c \<and> c < 0xE000"

definition utf8_char :: "nat \<Rightarrow> byte list" where
  "utf8_char c =
     (if c < 0x80 then [of_nat c]
      else if c < 0x800 then [of_nat (0xC0 + c div 64), of_nat (0x80 + c mod 64)]
      else if c < 0x10000 then
        [of_nat (0xE0 + c div 4096), of_nat (0x80 + c div 64 mod 64), of_nat (0x80 + c mod 64)]
      else
        [of_nat (0xF0 + c div 262144), of_nat (0x80 + c div 4096 mod 64),
         of_nat (0x80 + c div 64 mod 64), of_nat (0x80 + c mod 64)])"

text \<open>The bytes of a Spark string (Spark keeps strings in UTF-8).\<close>

definition utf8_bytes :: "pystr \<Rightarrow> byte list" where
  "utf8_bytes s = concat (map utf8_char s)"

section \<open>SHA-256\<close>

text \<open>
  The notebook hashes with Spark's \<open>sha2(_, 256)\<close>, and Fernet authenticates its tokens
  with HMAC-SHA256. Both rest on SHA-256 (FIPS 180-4), on 32-bit words.
\<close>

text \<open>The round constants and the initial hash value, in decimal.\<close>

definition K256 :: "32 word list" where
  "K256 =
    [1116352408, 1899447441, 3049323471, 3921009573, 961987163, 1508970993,
     2453635748, 2870763221, 3624381080, 310598401, 607225278, 1426881987,
     1925078388, 2162078206, 2614888103, 3248222580, 3835390401, 4022224774,
     264347078, 604807628, 770255983, 1249150122, 1555081692, 1996064986,
     2554220882, 2821834349, 2952996808, 3210313671, 3336571891, 3584528711,
     113926993, 338241895, 666307205, 773529912, 1294757372, 1396182291,
     1695183700, 1986661051, 2177026350, 2456956037, 2730485921, 2820302411,
     3259730800, 3345764771, 3516065817, 3600352804, 4094571909, 275423344,
     430227734, 506948616, 659060556, 883997877, 958139571, 1322822218,
     1537002063, 1747873779, 1955562222, 2024104815, 2227730452, 2361852424,
     2428436474, 2756734187, 3204031479, 3329325298]"

definition H256 :: "32 word list" where
  "H256 =
    [1779033703, 3144134277, 1013904242, 2773480762,
     1359893119, 2600822924, 528734635, 1541459225]"

definition rotr32 :: "nat \<Rightarrow> 32 word \<Rightarrow> 32 word" where
  "rotr32 n x = drop_bit n x OR push_bit (32 - n) x"

definition Ch :: "32 word \<Rightarrow> 32 word \<Rightarrow> 32 word \<Rightarrow> 32 word" where
  "Ch x y z = (x AND y) XOR (NOT x AND z)"

definition Maj :: "32 word \<Rightarrow> 32 word \<Rightarrow> 32 word \<Rightarrow> 32 word" where
  "Maj x y z = (x AND y) XOR (x AND z) XOR (y AND z)"

definition Sigma0 :: "32 word \<Rightarrow> 32 word" where
  "Sigma0 x = rotr32 2 x XOR rotr32 13 x XOR rotr32 22 x"

definition Sigma1 :: "32 word \<Rightarrow> 32 word" where
  "Sigma1 x = rotr32 6 x XOR rotr32 11 x XOR rotr32 25 x"

definition sigma0 :: "32 word \<Rightarrow> 32 word" where
  "sigma0 x = rotr32 7 x XOR rotr32 18 x XOR drop_bit 3 x"

definition sigma1 :: "32 word \<Rightarrow> 32 word" where
  "sigma1 x = rotr32 17 x XOR rotr32 19 x XOR drop_bit 10 x"

text \<open>Big-endian conversion between bytes and words.\<close>

fun be32 :: "byte list \<Rightarrow> 32 word list" where
  "be32 (a # b # c # d # bs) =
     (push_bit 24 (ucast a) OR push_bit 16 (ucast b) OR push_bit 8 (ucast c) OR ucast d) # be32 bs"
| "be32 _ = []"

definition bytes_of_word32 :: "32 word \<Rightarrow> byte list" where
  "bytes_of_word32 w =
     [ucast (drop_bit 24 w), ucast (drop_bit 16 w), ucast (drop_bit 8 w), ucast w]"

definition bytes_of_word64 :: "64 word \<Rightarrow> byte list" where
  "bytes_of_word64 w =
     [ucast (drop_bit 56 w), ucast (drop_bit 48 w), ucast (drop_bit 40 w), ucast (drop_bit 32 w),
      ucast (drop_bit 24 w), ucast (drop_bit 16 w), ucast (drop_bit 8 w), ucast w]"

text \<open>Padding: a 1 bit, zeros up to 56 modulo 64 bytes, then the bit length on 64 bits.\<close>

definition sha256_pad :: "byte list \<Rightarrow> byte list" where
  "sha256_pad m =
     m @ [0x80] @ replicate ((119 - length m mod 64) mod 64) 0
       @ bytes_of_word64 (word_of_nat (8 * length m))"

text \<open>The message schedule keeps a window of the last sixteen words; \<open>schedule n w\<close> is
  the next \<open>n\<close> words after the window \<open>w\<close>.\<close>

fun schedule :: "nat \<Rightarrow> 32 word list \<Rightarrow> 32 word list" where
  "schedule 0 w = []"
| "schedule (Suc n) w =
     (let x = sigma1 (w ! 14) + w ! 9 + sigma0 (w ! 1) + w ! 0
      in x # schedule n (tl w @ [x]))"

fun sha256_round :: "32 word list \<Rightarrow> 32 word \<times> 32 word \<Rightarrow> 32 word list" where
  "sha256_round [a, b, c, d, e, f, g, h] (k, w) =
     (let t1 = h + Sigma1 e + Ch e f g + k + w;
          t2 = Sigma0 a + Maj a b c
      in [t1 + t2, a, b, c, d + t1, e, f, g])"
| "sha256_round s _ = s"

definition sha256_compress :: "32 word list \<Rightarrow> byte list \<Rightarrow> 32 word list" where
  "sha256_compress hs block =
     (let w = be32 block;
          ws = w @ schedule 48 w
      in map2 (+) hs (foldl sha256_round hs (zip K256 ws)))"

fun chunks :: "nat \<Rightarrow> nat \<Rightarrow> 'a list \<Rightarrow> 'a list list" where
  "chunks 0 n xs = []"
| "chunks (Suc k) n xs = take n xs # chunks k n (drop n xs)"

definition blocks_of :: "nat \<Rightarrow> 'a list \<Rightarrow> 'a list list" where
  "blocks_of n xs = chunks (length xs div n) n xs"

definition sha256 :: "byte list \<Rightarrow> byte list" where
  "sha256 m =
     concat (map bytes_of_word32 (foldl sha256_compress H256 (blocks_of 64 (sha256_pad m))))"

section \<open>Spark column expressions\<close>

text \<open>\<open>cast("string")\<close>: a null stays null, a string is kept, a whole number is written in
  decimal, a boolean as \<open>true\<close> or \<open>false\<close>.\<close>

fun decimal :: "nat \<Rightarrow> pystr" where
  "decimal n = (if n < 10 then [48 + n] else decimal (n div 10) @ [48 + n mod 10])"

declare decimal.simps [simp del]

fun cast_string :: "cell \<Rightarrow> cell" where
  "cast_string Null = Null"
| "cast_string (StringV s) = StringV s"
| "cast_string (LongV n) = StringV (if n < 0 then 45 # decimal (nat (- n)) else decimal (nat n))"
| "cast_string (BooleanV b) = StringV (str (if b then ''true'' else ''false''))"

definition hex_digit :: "nat \<Rightarrow> nat" where
  "hex_digit d = (if d < 10 then 48 + d else 87 + d)"

definition hex_byte :: "byte \<Rightarrow> pystr" where
  "hex_byte b = [hex_digit (unat b div 16), hex_digit (unat b mod 16)]"

definition hex :: "byte list \<Rightarrow> pystr" where
  "hex bs = concat (map hex_byte bs)"

text \<open>\<open>sha2(e, 256)\<close>: null on null, otherwise the lower-case hexadecimal SHA-256 digest of
  the bytes of the string. The notebook applies it to a string cast only.\<close>

fun sha2_256 :: "cell \<Rightarrow> cell" where
  "sha2_256 (StringV s) = StringV (hex (sha256 (utf8_bytes s)))"
| "sha2_256 _ = Null"


definition hex_chars :: "nat set" where
  "hex_chars = {48..57} \<union> {97..102}"

section \<open>Errors\<close>

text \<open>The exceptions the notebook and its libraries can raise, as values.\<close>

datatype error =
    ValueError
  | AttributeError
  | UnicodeEncodeError
  | UnicodeDecodeError
  | OverflowError
  | InvalidToken
  | AnalysisException

fun bind_e :: "error + 'a \<Rightarrow> ('a \<Rightarrow> error + 'b) \<Rightarrow> error + 'b" where
  "bind_e (Inl e) f = Inl e"
| "bind_e (Inr x) f = f x"

fun map_e :: "('a \<Rightarrow> error + 'b) \<Rightarrow> 'a list \<Rightarrow> error + 'b list" where
  "map_e f [] = Inr []"
| "map_e f (x # xs) = bind_e (f x) (\<lambda>y. bind_e (map_e f xs) (\<lambda>ys. Inr (y # ys)))"

section \<open>Python string encoding and decoding\<close>

text \<open>\<open>s.encode("utf-8")\<close> raises \<open>UnicodeEncodeError\<close> on a lone surrogate.\<close>

definition encode_utf8 :: "pystr \<Rightarrow> error + byte list" where
  "encode_utf8 s = (if list_ex surrogate s then Inl UnicodeEncodeError else Inr (utf8_bytes s))"

definition continuation :: "nat \<Rightarrow> bool" where
  "continuation n \<longleftrightarrow> 0x80 \<le> n \<and> n < 0xC0"

text \<open>The strict decoder of \<open>b.decode("utf-8")\<close>: \<open>None\<close> stands for
  \<open>UnicodeDecodeError\<close>. Overlong forms, surrogates and values above U+10FFFF are
  rejected.\<close>

fun utf8_decode :: "byte list \<Rightarrow> pystr option" where
  "utf8_decode [] = Some []"
| "utf8_decode (b0 # bs) =
     (let n0 = unat b0 in
      if n0 < 0x80 then map_option ((#) n0) (utf8_decode bs)
      else if 0xC2 \<le> n0 \<and> n0 < 0xE0 then
        (case bs of
           b1 # r \<Rightarrow>
             if continuation (unat b1)
             then map_option ((#) ((n0 - 0xC0) * 64 + (unat b1 - 0x80))) (utf8_decode r)
             else None
         | _ \<Rightarrow> None)
      else if 0xE0 \<le> n0 \<and> n0 < 0xF0 then
        (case bs of
           b1 # b2 # r \<Rightarrow>
             (let c = (n0 - 0xE0) * 4096 + (unat b1 - 0x80) * 64 + (unat b2 - 0x80) in
              if continuation (unat b1) \<and> continuation (unat b2) \<and> 0x800 \<le> c \<and> \<not> surrogate c
              then map_option ((#) c) (utf8_decode r)
              else None)
         | _ \<Rightarrow> None)
      else if 0xF0 \<le> n0 \<and> n0 < 0xF5 then
        (case bs of
           b1 # b2 # b3 # r \<Rightarrow>
             (let c = (n0 - 0xF0) * 262144 + (unat b1 - 0x80) * 4096
                        + (unat b2 - 0x80) * 64 + (unat b3 - 0x80) in
              if continuation (unat b1) \<and> continuation (unat b2) \<and> continuation (unat b3)
                 \<and> 0x10000 \<le> c \<and> c < 0x110000
              then map_option ((#) c) (utf8_decode r)
              else None)
         | _ \<Rightarrow> None)
      else None)"

definition decode_utf8 :: "byte list \<Rightarrow> error + pystr" where
  "decode_utf8 bs = (case utf8_decode bs of None \<Rightarrow> Inl UnicodeDecodeError | Some s \<Rightarrow> Inr s)"

section \<open>URL-safe base64\<close>

text \<open>The alphabet of \<open>base64.urlsafe_b64encode\<close>: \<open>A-Z\<close>, \<open>a-z\<close>, \<open>0-9\<close>, \<open>-\<close> and
  \<open>_\<close>.\<close>

definition b64_char :: "nat \<Rightarrow> byte" where
  "b64_char v =
     (if v < 26 then of_nat (65 + v)
      else if v < 52 then of_nat (97 + (v - 26))
      else if v < 62 then of_nat (48 + (v - 52))
      else if v = 62 then 45 else 95)"

fun urlsafe_b64encode :: "byte list \<Rightarrow> byte list" where
  "urlsafe_b64encode [] = []"
| "urlsafe_b64encode [a] =
     [b64_char (unat a div 4), b64_char (unat a mod 4 * 16), 61, 61]"
| "urlsafe_b64encode [a, b] =
     [b64_char (unat a div 4), b64_char (unat a mod 4 * 16 + unat b div 16),
      b64_char (unat b mod 16 * 4), 61]"
| "urlsafe_b64encode (a # b # c # bs) =
     [b64_char (unat a div 4), b64_char (unat a mod 4 * 16 + unat b div 16),
      b64_char (unat b mod 16 * 4 + unat c div 64), b64_char (unat c mod 64)]
     @ urlsafe_b64encode bs"

text \<open>
  \<open>base64.urlsafe_b64decode\<close> maps \<open>-\<close> to \<open>+\<close> and \<open>_\<close> to \<open>/\<close> and calls the lenient
  decoder of \<open>binascii\<close>, so both spellings of the last two digits are accepted.
\<close>

definition b64_value :: "byte \<Rightarrow> nat option" where
  "b64_value c =
     (let n = unat c in
      if 65 \<le> n \<and> n \<le> 90 then Some (n - 65)
      else if 97 \<le> n \<and> n \<le> 122 then Some (n - 71)
      else if 48 \<le> n \<and> n \<le> 57 then Some (n + 4)
      else if n = 43 \<or> n = 45 then Some 62
      else if n = 47 \<or> n = 95 then Some 63
      else None)"

text \<open>
  The lenient decoder: a character outside the alphabet is skipped; padding that completes
  a group of four ends the decoding; input that ends inside a group is an error (\<open>None\<close>
  stands for \<open>binascii.Error\<close>). \<open>quad\<close> is the position in the group of four, \<open>left\<close>
  the bits left over from the previous digit, \<open>pads\<close> the padding characters seen since
  the last digit.
\<close>

fun a2b_base64 :: "nat \<Rightarrow> nat \<Rightarrow> nat \<Rightarrow> byte list \<Rightarrow> byte list \<Rightarrow> byte list option" where
  "a2b_base64 quad left pads out [] = (if quad \<noteq> 0 then None else Some out)"
| "a2b_base64 quad left pads out (c # cs) =
     (if c = 61 then
        (if 2 \<le> quad \<and> 4 \<le> quad + (pads + 1) then Some out
         else a2b_base64 quad left (if 2 \<le> quad then pads + 1 else pads) out cs)
      else
        (case b64_value c of
           None \<Rightarrow> a2b_base64 quad left pads out cs
         | Some v \<Rightarrow>
             if quad = 0 then a2b_base64 1 v 0 out cs
             else if quad = 1 then
               a2b_base64 2 (v mod 16) 0 (out @ [of_nat (left * 4 + v div 16)]) cs
             else if quad = 2 then
               a2b_base64 3 (v mod 4) 0 (out @ [of_nat (left * 16 + v div 4)]) cs
             else a2b_base64 0 0 0 (out @ [of_nat (left * 64 + v)]) cs))"

definition urlsafe_b64decode :: "byte list \<Rightarrow> byte list option" where
  "urlsafe_b64decode s = a2b_base64 0 0 0 [] s"

section \<open>HMAC-SHA256\<close>

definition hmac_sha256 :: "byte list \<Rightarrow> byte list \<Rightarrow> byte list" where
  "hmac_sha256 key msg =
     (let k = (if 64 < length key then sha256 key else key);
          k0 = k @ replicate (64 - length k) 0
      in sha256 (map (\<lambda>b. b XOR 0x5c) k0 @ sha256 (map (\<lambda>b. b XOR 0x36) k0 @ msg)))"

section \<open>AES-128 in CBC mode with PKCS7 padding\<close>

text \<open>The block cipher of FIPS 197 on a state of sixteen bytes, column by column.\<close>

definition sbox_table :: "byte list" where
  "sbox_table =
    [0x63, 0x7c, 0x77, 0x7b, 0xf2, 0x6b, 0x6f, 0xc5, 0x30, 0x01, 0x67, 0x2b, 0xfe, 0xd7, 0xab, 0x76,
     0xca, 0x82, 0xc9, 0x7d, 0xfa, 0x59, 0x47, 0xf0, 0xad, 0xd4, 0xa2, 0xaf, 0x9c, 0xa4, 0x72, 0xc0,
     0xb7, 0xfd, 0x93, 0x26, 0x36, 0x3f, 0xf7, 0xcc, 0x34, 0xa5, 0xe5, 0xf1, 0x71, 0xd8, 0x31, 0x15,
     0x04, 0xc7, 0x23, 0xc3, 0x18, 0x96, 0x05, 0x9a, 0x07, 0x12, 0x80, 0xe2, 0xeb, 0x27, 0xb2, 0x75,
     0x09, 0x83, 0x2c, 0x1a, 0x1b, 0x6e, 0x5a, 0xa0, 0x52, 0x3b, 0xd6, 0xb3, 0x29, 0xe3, 0x2f, 0x84,
     0x53, 0xd1, 0x00, 0xed, 0x20, 0xfc, 0xb1, 0x5b, 0x6a, 0xcb, 0xbe, 0x39, 0x4a, 0x4c, 0x58, 0xcf,
     0xd0, 0xef, 0xaa, 0xfb, 0x43, 0x4d, 0x33, 0x85, 0x45, 0xf9, 0x02, 0x7f, 0x50, 0x3c, 0x9f, 0xa8,
     0x51, 0xa3, 0x40, 0x8f, 0x92, 0x9d, 0x38, 0xf5, 0xbc, 0xb6, 0xda, 0x21, 0x10, 0xff, 0xf3, 0xd2,
     0xcd, 0x0c, 0x13, 0xec, 0x5f, 0x97, 0x44, 0x17, 0xc4, 0xa7, 0x7e, 0x3d, 0x64, 0x5d, 0x19, 0x73,
     0x60, 0x81, 0x4f, 0xdc, 0x22, 0x2a, 0x90, 0x88, 0x46, 0xee, 0xb8, 0x14, 0xde, 0x5e, 0x0b, 0xdb,
     0xe0, 0x32, 0x3a, 0x0a, 0x49, 0x06, 0x24, 0x5c, 0xc2, 0xd3, 0xac, 0x62, 0x91, 0x95, 0xe4, 0x79,
     0xe7, 0xc8, 0x37, 0x6d, 0x8d, 0xd5, 0x4e, 0xa9, 0x6c, 0x56, 0xf4, 0xea, 0x65, 0x7a, 0xae, 0x08,
     0xba, 0x78, 0x25, 0x2e, 0x1c, 0xa6, 0xb4, 0xc6, 0xe8, 0xdd, 0x74, 0x1f, 0x4b, 0xbd, 0x8b, 0x8a,
     0x70, 0x3e, 0xb5, 0x66, 0x48, 0x03, 0xf6, 0x0e, 0x61, 0x35, 0x57, 0xb9, 0x86, 0xc1, 0x1d, 0x9e,
     0xe1, 0xf8, 0x98, 0x11, 0x69, 0xd9, 0x8e, 0x94, 0x9b, 0x1e, 0x87, 0xe9, 0xce, 0x55, 0x28, 0xdf,
     0x8c, 0xa1, 0x89, 0x0d, 0xbf, 0xe6, 0x42, 0x68, 0x41, 0x99, 0x2d, 0x0f, 0xb0, 0x54, 0xbb, 0x16]"

definition inv_sbox_table :: "byte list" where
  "inv_sbox_table =
    [0x52, 0x09, 0x6a, 0xd5, 0x30, 0x36, 0xa5, 0x38, 0xbf, 0x40, 0xa3, 0x9e, 0x81, 0xf3, 0xd7, 0xfb,
     0x7c, 0xe3, 0x39, 0x82, 0x9b, 0x2f, 0xff, 0x87, 0x34, 0x8e, 0x43, 0x44, 0xc4, 0xde, 0xe9, 0xcb,
     0x54, 0x7b, 0x94, 0x32, 0xa6, 0xc2, 0x23, 0x3d, 0xee, 0x4c, 0x95, 0x0b, 0x42, 0xfa, 0xc3, 0x4e,
     0x08, 0x2e, 0xa1, 0x66, 0x28, 0xd9, 0x24, 0xb2, 0x76, 0x5b, 0xa2, 0x49, 0x6d, 0x8b, 0xd1, 0x25,
     0x72, 0xf8, 0xf6, 0x64, 0x86, 0x68, 0x98, 0x16, 0xd4, 0xa4, 0x5c, 0xcc, 0x5d, 0x65, 0xb6, 0x92,
     0x6c, 0x70, 0x48, 0x50, 0xfd, 0xed, 0xb9, 0xda, 0x5e, 0x15, 0x46, 0x57, 0xa7, 0x8d, 0x9d, 0x84,
     0x90, 0xd8, 0xab, 0x00, 0x8c, 0xbc, 0xd3, 0x0a, 0xf7, 0xe4, 0x58, 0x05, 0xb8, 0xb3, 0x45, 0x06,
     0xd0, 0x2c, 0x1e, 0x8f, 0xca, 0x3f, 0x0f, 0x02, 0xc1, 0xaf, 0xbd, 0x03, 0x01, 0x13, 0x8a, 0x6b,
     0x3a, 0x91, 0x11, 0x41, 0x4f, 0x67, 0xdc, 0xea, 0x97, 0xf2, 0xcf, 0xce, 0xf0, 0xb4, 0xe6, 0x73,
     0x96, 0xac, 0x74, 0x22, 0xe7, 0xad, 0x35, 0x85, 0xe2, 0xf9, 0x37, 0xe8, 0x1c, 0x75, 0xdf, 0x6e,
     0x47, 0xf1, 0x1a, 0x71, 0x1d, 0x29, 0xc5, 0x89, 0x6f, 0xb7, 0x62, 0x0e, 0xaa, 0x18, 0xbe, 0x1b,
     0xfc, 0x56, 0x3e, 0x4b, 0xc6, 0xd2, 0x79, 0x20, 0x9a, 0xdb, 0xc0, 0xfe, 0x78, 0xcd, 0x5a, 0xf4,
     0x1f, 0xdd, 0xa8, 0x33, 0x88, 0x07, 0xc7, 0x31, 0xb1, 0x12, 0x10, 0x59, 0x27, 0x80, 0xec, 0x5f,
     0x60, 0x51, 0x7f, 0xa9, 0x19, 0xb5, 0x4a, 0x0d, 0x2d, 0xe5, 0x7a, 0x9f, 0x93, 0xc9, 0x9c, 0xef,
     0xa0, 0xe0, 0x3b, 0x4d, 0xae, 0x2a, 0xf5, 0xb0, 0xc8, 0xeb, 0xbb, 0x3c, 0x83, 0x53, 0x99, 0x61,
     0x17, 0x2b, 0x04, 0x7e, 0xba, 0x77, 0xd6, 0x26, 0xe1, 0x69, 0x14, 0x63, 0x55, 0x21, 0x0c, 0x7d]"

definition sbox :: "byte \<Rightarrow> byte" where
  "sbox b = sbox_table ! unat b"

definition inv_sbox :: "byte \<Rightarrow> byte" where
  "inv_sbox b = inv_sbox_table ! unat b"

definition xtime :: "byte \<Rightarrow> byte" where
  "xtime a = (if bit a 7 then push_bit 1 a XOR 0x1b else push_bit 1 a)"

definition sub_bytes :: "byte list \<Rightarrow> byte list" where
  "sub_bytes s = map sbox s"

definition inv_sub_bytes :: "byte list \<Rightarrow> byte list" where
  "inv_sub_bytes s = map inv_sbox s"

fun shift_rows :: "byte list \<Rightarrow> byte list" where
  "shift_rows [s0, s1, s2, s3, s4, s5, s6, s7, s8, s9, s10, s11, s12, s13, s14, s15] =
     [s0, s5, s10, s15, s4, s9, s14, s3, s8, s13, s2, s7, s12, s1, s6, s11]"
| "shift_rows s = s"

fun inv_shift_rows :: "byte list \<Rightarrow> byte list" where
  "inv_shift_rows [s0, s1, s2, s3, s4, s5, s6, s7, s8, s9, s10, s11, s12, s13, s14, s15] =
     [s0, s13, s10, s7, s4, s1, s14, s11, s8, s5, s2, s15, s12, s9, s6, s3]"
| "inv_shift_rows s = s"

definition mul2 :: "byte \<Rightarrow> byte" where "mul2 a = xtime a"
definition mul3 :: "byte \<Rightarrow> byte" where "mul3 a = xtime a XOR a"
definition mul9 :: "byte \<Rightarrow> byte" where "mul9 a = xtime (xtime (xtime a)) XOR a"
definition mul11 :: "byte \<Rightarrow> byte" where "mul11 a = xtime (xtime (xtime a)) XOR xtime a XOR a"
definition mul13 :: "byte \<Rightarrow> byte" where
  "mul13 a = xtime (xtime (xtime a)) XOR xtime (xtime a) XOR a"
definition mul14 :: "byte \<Rightarrow> byte" where
  "mul14 a = xtime (xtime (xtime a)) XOR xtime (xtime a) XOR xtime a"

fun mix_columns :: "byte list \<Rightarrow> byte list" where
  "mix_columns (a0 # a1 # a2 # a3 # s) =
     [mul2 a0 XOR mul3 a1 XOR a2 XOR a3, a0 XOR mul2 a1 XOR mul3 a2 XOR a3,
      a0 XOR a1 XOR mul2 a2 XOR mul3 a3, mul3 a0 XOR a1 XOR a2 XOR mul2 a3] @ mix_columns s"
| "mix_columns s = s"

fun inv_mix_columns :: "byte list \<Rightarrow> byte list" where
  "inv_mix_columns (a0 # a1 # a2 # a3 # s) =
     [mul14 a0 XOR mul11 a1 XOR mul13 a2 XOR mul9 a3,
      mul9 a0 XOR mul14 a1 XOR mul11 a2 XOR mul13 a3,
      mul13 a0 XOR mul9 a1 XOR mul14 a2 XOR mul11 a3,
      mul11 a0 XOR mul13 a1 XOR mul9 a2 XOR mul14 a3] @ inv_mix_columns s"
| "inv_mix_columns s = s"

definition xor_bytes :: "byte list \<Rightarrow> byte list \<Rightarrow> byte list" where
  "xor_bytes a b = map2 (XOR) a b"

text \<open>Key expansion: forty more words of four bytes after the four of the key; every
  fourth word is rotated, substituted and given the round constant.\<close>

fun expand_key :: "nat \<Rightarrow> byte \<Rightarrow> byte list list \<Rightarrow> byte list list" where
  "expand_key 0 rc w = w"
| "expand_key (Suc n) rc w =
     (let i = length w; t = w ! (i - 1); p = w ! (i - 4) in
      if i mod 4 = 0 then
        (let r = map sbox (tl t @ [hd t]) in
         expand_key n (xtime rc) (w @ [xor_bytes p ((hd r XOR rc) # tl r)]))
      else expand_key n rc (w @ [xor_bytes p t]))"

definition key_expansion :: "byte list \<Rightarrow> byte list list" where
  "key_expansion key = blocks_of 16 (concat (expand_key 40 1 (blocks_of 4 key)))"

definition aes_round :: "byte list \<Rightarrow> byte list \<Rightarrow> byte list" where
  "aes_round s k = xor_bytes (mix_columns (shift_rows (sub_bytes s))) k"

definition aes_inv_round :: "byte list \<Rightarrow> byte list \<Rightarrow> byte list" where
  "aes_inv_round s k = inv_sub_bytes (inv_shift_rows (inv_mix_columns (xor_bytes s k)))"

definition aes_encrypt_block :: "byte list list \<Rightarrow> byte list \<Rightarrow> byte list" where
  "aes_encrypt_block rk blk =
     (let s = foldl aes_round (xor_bytes blk (rk ! 0)) (take 9 (drop 1 rk))
      in xor_bytes (shift_rows (sub_bytes s)) (rk ! 10))"

definition aes_decrypt_block :: "byte list list \<Rightarrow> byte list \<Rightarrow> byte list" where
  "aes_decrypt_block rk blk =
     (let s = inv_sub_bytes (inv_shift_rows (xor_bytes blk (rk ! 10)))
      in xor_bytes (foldl aes_inv_round s (rev (take 9 (drop 1 rk)))) (rk ! 0))"

fun cbc_encrypt_blocks :: "byte list list \<Rightarrow> byte list \<Rightarrow> byte list list \<Rightarrow> byte list list" where
  "cbc_encrypt_blocks rk prev [] = []"
| "cbc_encrypt_blocks rk prev (b # bs) =
     (let c = aes_encrypt_block rk (xor_bytes b prev) in c # cbc_encrypt_blocks rk c bs)"

fun cbc_decrypt_blocks :: "byte list list \<Rightarrow> byte list \<Rightarrow> byte list list \<Rightarrow> byte list list" where
  "cbc_decrypt_blocks rk prev [] = []"
| "cbc_decrypt_blocks rk prev (c # cs) =
     xor_bytes (aes_decrypt_block rk c) prev # cbc_decrypt_blocks rk c cs"

definition cbc_encrypt :: "byte list \<Rightarrow> byte list \<Rightarrow> byte list \<Rightarrow> byte list" where
  "cbc_encrypt key iv data = concat (cbc_encrypt_blocks (key_expansion key) iv (blocks_of 16 data))"

definition cbc_decrypt :: "byte list \<Rightarrow> byte list \<Rightarrow> byte list \<Rightarrow> byte list" where
  "cbc_decrypt key iv data = concat (cbc_decrypt_blocks (key_expansion key) iv (blocks_of 16 data))"

definition pkcs7_pad :: "byte list \<Rightarrow> byte list" where
  "pkcs7_pad d = (let n = 16 - length d mod 16 in d @ replicate n (of_nat n))"

text \<open>Unpadding fails (\<open>None\<close>, a \<open>ValueError\<close> in the library) unless the data ends a
  block with \<open>n\<close> bytes of value \<open>n\<close>, \<open>n\<close> from 1 to 16.\<close>

definition pkcs7_unpad :: "byte list \<Rightarrow> byte list option" where
  "pkcs7_unpad d =
     (if d = [] \<or> length d mod 16 \<noteq> 0 then None
      else
        (let n = unat (last d) in
         if n = 0 \<or> 16 < n \<or> list_ex (\<lambda>b. b \<noteq> last d) (drop (length d - n) d) then None
         else Some (take (length d - n) d)))"


section \<open>Fernet\<close>

text \<open>
  The class \<open>cryptography.fernet.Fernet\<close> that the notebook imports. A key is 32 bytes in
  URL-safe base64: the first half signs, the second half encrypts. A token is the base64
  of the version byte \<open>0x80\<close>, the time on eight bytes, the initialisation vector, the
  ciphertext and the HMAC of all that precedes it.
\<close>

record fernet =
  signing_key :: "byte list"
  encryption_key :: "byte list"

definition Fernet :: "byte list \<Rightarrow> error + fernet" where
  "Fernet key =
     (case urlsafe_b64decode key of
        None \<Rightarrow> Inl ValueError
      | Some k \<Rightarrow>
          if length k \<noteq> 32 then Inl ValueError
          else Inr \<lparr>signing_key = take 16 k, encryption_key = drop 16 k\<rparr>)"

text \<open>\<open>current_time.to_bytes(length=8, byteorder="big")\<close>.\<close>

definition to_bytes8 :: "int \<Rightarrow> error + byte list" where
  "to_bytes8 t =
     (if t < 0 \<or> 2 ^ 64 \<le> t then Inl OverflowError else Inr (bytes_of_word64 (word_of_int t)))"

text \<open>
  \<open>Fernet.encrypt\<close> reads the clock and sixteen random bytes and calls
  \<open>_encrypt_from_parts\<close>; here both readings are arguments.
\<close>

definition fernet_encrypt :: "fernet \<Rightarrow> int \<Rightarrow> byte list \<Rightarrow> byte list \<Rightarrow> error + byte list" where
  "fernet_encrypt f current_time iv data =
     (if length iv \<noteq> 16 then Inl ValueError
      else
        (let ciphertext = cbc_encrypt (encryption_key f) iv (pkcs7_pad data) in
         bind_e (to_bytes8 current_time) (\<lambda>ts.
           (let basic_parts = [0x80] @ ts @ iv @ ciphertext;
                hmac = hmac_sha256 (signing_key f) basic_parts
            in Inr (urlsafe_b64encode (basic_parts @ hmac))))))"

text \<open>
  \<open>Fernet.decrypt(token)\<close> without a time to live: the token is decoded and its first
  byte and length are checked, the signature is verified, and only then the ciphertext
  is decrypted and unpadded. Every failure is \<open>InvalidToken\<close>.
\<close>

definition fernet_decrypt :: "fernet \<Rightarrow> byte list \<Rightarrow> error + byte list" where
  "fernet_decrypt f token =
     (case urlsafe_b64decode token of
        None \<Rightarrow> Inl InvalidToken
      | Some data \<Rightarrow>
          if data = [] \<or> hd data \<noteq> 0x80 then Inl InvalidToken
          else if length data < 9 then Inl InvalidToken
          else if hmac_sha256 (signing_key f) (take (length data - 32) data)
                    \<noteq> drop (length data - 32) data
          then Inl InvalidToken
          else
            (let iv = take 16 (drop 9 data);
                 ciphertext = take (length data - 32 - 25) (drop 25 data)
             in if length ciphertext mod 16 \<noteq> 0 then Inl InvalidToken
                else
                  (case pkcs7_unpad (cbc_decrypt (encryption_key f) iv ciphertext) of
                     None \<Rightarrow> Inl InvalidToken
                   | Some unpadded \<Rightarrow> Inr unpadded)))"

section \<open>The notebook \<open>01_autoloader_encrypt_pii\<close>\<close>

subsection \<open>Configuration\<close>

text \<open>
  The notebook refuses to run with the placeholder key; with any other string it builds
  the global \<open>FERNET\<close>. The functions below take that object as an argument.
\<close>

definition placeholder_key :: pystr where
  "placeholder_key = str ''CHANGE_ME_WITH_A_REAL_FERNET_KEY''"

definition FERNET :: "pystr \<Rightarrow> error + fernet" where
  "FERNET ENCRYPTION_KEY =
     (if ENCRYPTION_KEY = placeholder_key then Inl ValueError
      else bind_e (encode_utf8 ENCRYPTION_KEY) Fernet)"

definition ENCRYPT_COLUMNS :: "string list" where
  "ENCRYPT_COLUMNS = [''full_name'', ''email'', ''phone'']"

definition HASH_COLUMNS :: "string list" where
  "HASH_COLUMNS = [''national_id'']"

definition DROP_COLUMNS :: "string list" where
  "DROP_COLUMNS = []"

subsection \<open>PII policy functions\<close>

text \<open>
  \<open>encrypt_value\<close>: \<open>None\<close> stays \<open>None\<close>; a string is encoded, encrypted and the token
  decoded to a string. A value that is not a string has no \<open>encode\<close>, which raises
  \<open>AttributeError\<close>. The pair \<open>(now, iv)\<close> is what the call reads from the clock and from
  \<open>os.urandom\<close>.
\<close>

fun encrypt_value :: "fernet \<Rightarrow> int \<times> byte list \<Rightarrow> cell \<Rightarrow> error + cell" where
  "encrypt_value f (now, iv) Null = Inr Null"
| "encrypt_value f (now, iv) (StringV v) =
     bind_e (encode_utf8 v) (\<lambda>data.
     bind_e (fernet_encrypt f now iv data) (\<lambda>token.
     bind_e (decode_utf8 token) (\<lambda>s. Inr (StringV s))))"
| "encrypt_value f (now, iv) _ = Inl AttributeError"

fun decrypt_one :: "fernet \<Rightarrow> cell \<Rightarrow> error + cell" where
  "decrypt_one f Null = Inr Null"
| "decrypt_one f (StringV v) =
     bind_e (encode_utf8 v) (\<lambda>token.
     bind_e (fernet_decrypt f token) (\<lambda>data.
     bind_e (decode_utf8 data) (\<lambda>s. Inr (StringV s))))"
| "decrypt_one f _ = Inl AttributeError"

text \<open>\<open>decrypt_value\<close> maps \<open>_decrypt_one\<close> over a batch; an exception in one element
  leaves the call without a result.\<close>

definition decrypt_value :: "fernet \<Rightarrow> cell list \<Rightarrow> error + cell list" where
  "decrypt_value f col_series = map_e (decrypt_one f) col_series"

subsection \<open>DataFrames\<close>

text \<open>
  A DataFrame is its column names, in order, and its rows, each a list of cells in the
  order of the columns. Names are compared as Python compares them in
  \<open>name in result.columns\<close>.
\<close>

record dataframe =
  columns :: "string list"
  rows :: "cell list list"

definition well_formed :: "dataframe \<Rightarrow> bool" where
  "well_formed df \<longleftrightarrow> distinct (columns df) \<and> (\<forall>r \<in> set (rows df). length r = length (columns df))"

text \<open>
  \<open>df.withColumn(name, e(col(name)))\<close> for a column that exists: the column keeps its
  place and every row gets the new cell. The expression sees the number of the row, for
  the expressions that read the clock.
\<close>

fun with_cell :: "string \<Rightarrow> (cell \<Rightarrow> error + cell) \<Rightarrow> string list \<Rightarrow> cell list \<Rightarrow> error + cell list" where
  "with_cell name e (c # cs) (v # vs) =
     bind_e (if c = name then e v else Inr v) (\<lambda>v'.
     bind_e (with_cell name e cs vs) (\<lambda>vs'. Inr (v' # vs')))"
| "with_cell name e _ _ = Inr []"

fun with_rows :: "string \<Rightarrow> (nat \<Rightarrow> cell \<Rightarrow> error + cell) \<Rightarrow> string list \<Rightarrow> nat \<Rightarrow> cell list list
    \<Rightarrow> error + cell list list" where
  "with_rows name e cs i [] = Inr []"
| "with_rows name e cs i (r # rs) =
     bind_e (with_cell name (e i) cs r) (\<lambda>r'.
     bind_e (with_rows name e cs (Suc i) rs) (\<lambda>rs'. Inr (r' # rs')))"

definition withColumn :: "string \<Rightarrow> (nat \<Rightarrow> cell \<Rightarrow> error + cell) \<Rightarrow> dataframe \<Rightarrow> error + dataframe" where
  "withColumn name e df =
     bind_e (with_rows name e (columns df) 0 (rows df)) (\<lambda>rs. Inr (df\<lparr>rows := rs\<rparr>))"

text \<open>\<open>df.drop(name)\<close> removes the column and its cells.\<close>

definition drop_column :: "string \<Rightarrow> dataframe \<Rightarrow> dataframe" where
  "drop_column name df =
     \<lparr>columns = filter (\<lambda>c. c \<noteq> name) (columns df),
      rows = map (\<lambda>r. map snd (filter (\<lambda>(c, v). c \<noteq> name) (zip (columns df) r))) (rows df)\<rparr>"

text \<open>A \<open>for\<close> loop over names whose body may raise.\<close>

fun for_each :: "'a list \<Rightarrow> ('a \<Rightarrow> 's \<Rightarrow> error + 's) \<Rightarrow> 's \<Rightarrow> error + 's" where
  "for_each [] body s = Inr s"
| "for_each (x # xs) body s = bind_e (body x s) (for_each xs body)"

text \<open>
  \<open>apply_pii_policy\<close> with the three lists as arguments: the encryption loop, the
  hashing loop and the dropping loop, in this order. \<open>env name i\<close> is the clock reading
  and the random bytes of the encryption of row \<open>i\<close> of column \<open>name\<close>.
\<close>

definition apply_policy ::
  "string list \<Rightarrow> string list \<Rightarrow> string list \<Rightarrow> fernet \<Rightarrow> (string \<Rightarrow> nat \<Rightarrow> int \<times> byte list)
     \<Rightarrow> dataframe \<Rightarrow> error + dataframe" where
  "apply_policy enc hsh drp f env df =
     bind_e (for_each enc
               (\<lambda>name result.
                  if name \<in> set (columns result)
                  then withColumn name (\<lambda>i. encrypt_value f (env name i)) result
                  else Inr result) df) (\<lambda>result.
     bind_e (for_each hsh
               (\<lambda>name result.
                  if name \<in> set (columns result)
                  then withColumn name (\<lambda>i v. Inr (sha2_256 (cast_string v))) result
                  else Inr result) result) (\<lambda>result.
     for_each drp
       (\<lambda>name result.
          if name \<in> set (columns result) then Inr (drop_column name result) else Inr result)
       result))"

definition apply_pii_policy ::
  "fernet \<Rightarrow> (string \<Rightarrow> nat \<Rightarrow> int \<times> byte list) \<Rightarrow> dataframe \<Rightarrow> error + dataframe" where
  "apply_pii_policy = apply_policy ENCRYPT_COLUMNS HASH_COLUMNS DROP_COLUMNS"

subsection \<open>The SQL views\<close>

text \<open>
  \<open>substr(s, pos, len)\<close> counts characters from 1; a negative position counts from the
  end; the part outside the string is cut off. \<open>concat\<close> is null as soon as one argument
  is. Both take the string cast of their argument.
\<close>

definition substringSQL :: "pystr \<Rightarrow> int \<Rightarrow> int \<Rightarrow> pystr" where
  "substringSQL s pos len =
     (let start = (if 0 < pos then pos - 1 else if pos < 0 then int (length s) + pos else 0);
          until = start + len
      in drop (nat start) (take (nat until) s))"

definition substr :: "cell \<Rightarrow> int \<Rightarrow> int \<Rightarrow> cell" where
  "substr v pos len =
     (case cast_string v of StringV s \<Rightarrow> StringV (substringSQL s pos len) | _ \<Rightarrow> Null)"

definition sql_concat :: "cell \<Rightarrow> cell \<Rightarrow> cell" where
  "sql_concat a b =
     (case (cast_string a, cast_string b) of
        (StringV x, StringV y) \<Rightarrow> StringV (x @ y)
      | _ \<Rightarrow> Null)"

text \<open>A column of the table by name; an unknown name fails the analysis of the view.\<close>

fun index_of :: "string \<Rightarrow> string list \<Rightarrow> nat option" where
  "index_of name [] = None"
| "index_of name (c # cs) = (if c = name then Some 0 else map_option Suc (index_of name cs))"

definition col :: "string \<Rightarrow> dataframe \<Rightarrow> error + cell list" where
  "col name df =
     (case index_of name (columns df) of
        None \<Rightarrow> Inl AnalysisException
      | Some i \<Rightarrow> Inr (map (\<lambda>r. r ! i) (rows df)))"

definition select_rows :: "nat \<Rightarrow> cell list list \<Rightarrow> cell list list" where
  "select_rows n cs = map (\<lambda>i. map (\<lambda>c. c ! i) cs) [0..<n]"

definition v_customers_clear :: "fernet \<Rightarrow> dataframe \<Rightarrow> error + dataframe" where
  "v_customers_clear f customers_bronze =
     bind_e (col ''customer_id'' customers_bronze) (\<lambda>customer_id.
     bind_e (bind_e (col ''full_name'' customers_bronze) (decrypt_value f)) (\<lambda>full_name.
     bind_e (bind_e (col ''email'' customers_bronze) (decrypt_value f)) (\<lambda>email.
     bind_e (bind_e (col ''phone'' customers_bronze) (decrypt_value f)) (\<lambda>phone.
     bind_e (col ''national_id'' customers_bronze) (\<lambda>national_id.
     bind_e (col ''city'' customers_bronze) (\<lambda>city.
     Inr \<lparr>columns = [''customer_id'', ''full_name'', ''email'', ''phone'', ''national_id'', ''city''],
          rows = select_rows (length (rows customers_bronze))
                   [customer_id, full_name, email, phone, national_id, city]\<rparr>))))))"

definition full_name_masked :: "cell \<Rightarrow> cell" where
  "full_name_masked v = sql_concat (substr v 1 1) (StringV (str ''***''))"

definition email_masked :: "cell \<Rightarrow> cell" where
  "email_masked v = sql_concat (StringV (str ''***'')) (substr v (- 10) 10)"

definition phone_masked :: "cell \<Rightarrow> cell" where
  "phone_masked v = sql_concat (StringV (str ''***'')) (substr v (- 4) 4)"

definition v_customers_masked :: "fernet \<Rightarrow> dataframe \<Rightarrow> error + dataframe" where
  "v_customers_masked f customers_bronze =
     bind_e (col ''customer_id'' customers_bronze) (\<lambda>customer_id.
     bind_e (bind_e (col ''full_name'' customers_bronze) (decrypt_value f)) (\<lambda>full_name.
     bind_e (bind_e (col ''email'' customers_bronze) (decrypt_value f)) (\<lambda>email.
     bind_e (bind_e (col ''phone'' customers_bronze) (decrypt_value f)) (\<lambda>phone.
     bind_e (col ''national_id'' customers_bronze) (\<lambda>national_id.
     bind_e (col ''city'' customers_bronze) (\<lambda>city.
     Inr \<lparr>columns = [''customer_id'', ''full_name_masked'', ''email_masked'', ''phone_masked'',
                     ''national_id'', ''city''],
          rows = select_rows (length (rows customers_bronze))
                   [customer_id, map full_name_masked full_name, map email_masked email,
                    map phone_masked phone, national_id, city]\<rparr>))))))"


section \<open>Notions of the specification and sample inputs\<close>


definition zero_key :: fernet where
  "zero_key = \<lparr>signing_key = replicate 16 0, encryption_key = replicate 16 0\<rparr>"

definition fixed_env :: "string \<Rightarrow> nat \<Rightarrow> int \<times> byte list" where
  "fixed_env name i = (0, replicate 16 0)"

text \<open>
  \<open>framed P df df'\<close>: the two frames have the same columns and as many rows, and in
  every row the cells of the columns that satisfy \<open>P\<close> are the same, in the same order.
\<close>

definition framed :: "(string \<Rightarrow> bool) \<Rightarrow> dataframe \<Rightarrow> dataframe \<Rightarrow> bool" where
  "framed P df df' \<longleftrightarrow>
     columns df' = columns df \<and> length (rows df') = length (rows df)
     \<and> list_all (\<lambda>j. filter (\<lambda>(c, v). P c) (zip (columns df) (rows df' ! j))
                     = filter (\<lambda>(c, v). P c) (zip (columns df) (rows df ! j)))
          [0..<length (rows df)]"


definition sample_customers :: dataframe where
  "sample_customers =
     \<lparr>columns = [''customer_id'', ''full_name'', ''national_id'', ''city''],
      rows = [[LongV 1, Null, Null, StringV (str ''Paris'')]]\<rparr>"

definition corrupt_bronze :: dataframe where
  "corrupt_bronze =
     \<lparr>columns = [''customer_id'', ''full_name'', ''email'', ''phone'', ''national_id'', ''city''],
      rows = [[LongV 1, Null, Null, Null, Null, StringV (str ''Paris'')],
              [LongV 2, StringV (str ''AAAA''), Null, Null, Null, StringV (str ''Lyon'')]]\<rparr>"

text \<open>The cells of a row after the hashing of column \<open>name\<close>.\<close>

definition hash_cells :: "string \<Rightarrow> string list \<Rightarrow> cell list \<Rightarrow> cell list" where
  "hash_cells name cs r = map (\<lambda>(c, v). if c = name then sha2_256 (cast_string v) else v) (zip cs r)"


definition hashed_sample :: dataframe where
  "hashed_sample =
     \<lparr>columns = [''customer_id'', ''full_name'', ''national_id'', ''city''],
      rows = [[LongV 7, Null, LongV 123, StringV (str ''Paris'')]]\<rparr>"

text \<open>A token is corrupt when it does not decode or its signature does not verify.\<close>

definition corrupt :: "fernet \<Rightarrow> byte list \<Rightarrow> bool" where
  "corrupt f token \<longleftrightarrow>
     (case urlsafe_b64decode token of
        None \<Rightarrow> True
      | Some data \<Rightarrow>
          hmac_sha256 (signing_key f) (take (length data - 32) data) \<noteq> drop (length data - 32) data)"


section \<open>Properties of the digest\<close>

lemma length8_cases:
  "length (s :: 'a list) = 8 \<Longrightarrow> \<exists>a b c d e f g h. s = [a, b, c, d, e, f, g, h]"
  by (simp add: length_Suc_conv numeral_eq_Suc) blast

lemma length_sha256_round: "length s = 8 \<Longrightarrow> length (sha256_round s kw) = 8"
proof -
  assume "length s = 8"
  then obtain a b c d e f g h where s: "s = [a, b, c, d, e, f, g, h]"
    using length8_cases by blast
  obtain k w where kw: "kw = (k, w)" by (cases kw)
  show ?thesis by (simp add: s kw Let_def)
qed

lemma length_foldl_round:
  "length s = 8 \<Longrightarrow> length (foldl sha256_round s kws) = 8"
  by (induction kws arbitrary: s) (simp_all add: length_sha256_round)

lemma length_sha256_compress:
  "length hs = 8 \<Longrightarrow> length (sha256_compress hs block) = 8"
  by (simp add: sha256_compress_def Let_def length_foldl_round)

lemma length_foldl_compress:
  "length hs = 8 \<Longrightarrow> length (foldl sha256_compress hs bs) = 8"
  by (induction bs arbitrary: hs) (simp_all add: length_sha256_compress)

lemma length_concat_words:
  "length (concat (map bytes_of_word32 ws)) = 4 * length ws"
  by (induction ws) (simp_all add: bytes_of_word32_def)

lemma length_sha256: "length (sha256 m) = 32"
  by (simp add: sha256_def length_concat_words length_foldl_compress H256_def)

lemma hex_digit_in: "d < 16 \<Longrightarrow> hex_digit d \<in> hex_chars"
  by (auto simp: hex_digit_def hex_chars_def)

lemma length_hex: "length (hex bs) = 2 * length bs"
  by (induction bs) (simp_all add: hex_def hex_byte_def)

lemma unat_byte_less: "unat (b :: byte) < 256"
  using unsigned_less [of b, where 'a = nat] by simp

lemma unat_byte_div16: "unat (b :: byte) div 16 < 16"
  using unat_byte_less [of b] by simp

lemma set_hex: "set (hex bs) \<subseteq> hex_chars"
  by (induction bs) (simp_all add: hex_def hex_byte_def hex_digit_in unat_byte_div16)

lemma decimal_123: "decimal 123 = str ''123''"
  by (simp add: decimal.simps [of 123] decimal.simps [of 12] decimal.simps [of "Suc 0"] str_def)

section \<open>Errors, loops and masks\<close>

lemma str_marker: "str ''***'' = [42, 42, 42]"
  by (simp add: str_def)

lemma bind_e_Inr_iff: "bind_e m k = Inr y \<longleftrightarrow> (\<exists>x. m = Inr x \<and> k x = Inr y)"
  by (cases m) simp_all



lemma map_e_Inl:
  "x \<in> set xs \<Longrightarrow> g x = Inl e \<Longrightarrow> \<exists>e'. map_e g xs = Inl e'"
proof (induction xs)
  case Nil
  then show ?case by simp
next
  case (Cons a xs)
  show ?case
  proof (cases "g a")
    case (Inl e0)
    then show ?thesis by simp
  next
    case (Inr y)
    show ?thesis
    proof (cases "x = a")
      case True
      with Cons.prems Inr show ?thesis by simp
    next
      case False
      with Cons have "\<exists>e'. map_e g xs = Inl e'" by simp
      then show ?thesis using Inr by auto
    qed
  qed
qed

lemma substringSQL_prefix: "0 \<le> n \<Longrightarrow> substringSQL s 1 n = take (nat n) s"
  by (simp add: substringSQL_def)

lemma substringSQL_suffix: "0 < n \<Longrightarrow> substringSQL s (- n) n = drop (length s - nat n) s"
  by (simp add: substringSQL_def Let_def nat_diff_distrib')

lemma full_name_masked_str: "full_name_masked (StringV s) = StringV (take 1 s @ str ''***'')"
  by (simp add: full_name_masked_def sql_concat_def substr_def substringSQL_prefix)

lemma email_masked_str: "email_masked (StringV s) = StringV (str ''***'' @ drop (length s - 10) s)"
  using substringSQL_suffix [of 10 s]
  by (simp add: email_masked_def sql_concat_def substr_def)

lemma phone_masked_str: "phone_masked (StringV s) = StringV (str ''***'' @ drop (length s - 4) s)"
  using substringSQL_suffix [of 4 s]
  by (simp add: phone_masked_def sql_concat_def substr_def)

lemma take_eq_self_iff: "take n s = s \<longleftrightarrow> length s \<le> n"
  by (metis take_all_iff)

lemma drop_eq_self_iff: "drop n s = s \<longleftrightarrow> n = 0 \<or> s = []"
proof
  assume "drop n s = s"
  then have "length s - n = length s" by (metis length_drop)
  then show "n = 0 \<or> s = []" by (cases s) auto
qed auto

text \<open>
  Claim C7, as amended. The masked value of a string is the marker \<open>***\<close> joined with
  the kept characters only: the first character of the name, the last ten of the email,
  the last four of the phone, fewer when the string is shorter. The kept part is the
  whole string exactly when the string is no longer than the keep length.
\<close>

theorem masking_clamped:
  "full_name_masked (StringV s) = StringV (take 1 s @ str ''***'')
   \<and> email_masked (StringV s) = StringV (str ''***'' @ drop (length s - 10) s)
   \<and> phone_masked (StringV s) = StringV (str ''***'' @ drop (length s - 4) s)
   \<and> length (take 1 s) = min 1 (length s)
   \<and> length (drop (length s - 10) s) = min 10 (length s)
   \<and> length (drop (length s - 4) s) = min 4 (length s)
   \<and> (take 1 s = s \<longleftrightarrow> length s \<le> 1)
   \<and> (drop (length s - 10) s = s \<longleftrightarrow> length s \<le> 10)
   \<and> (drop (length s - 4) s = s \<longleftrightarrow> length s \<le> 4)"
  by (auto simp: full_name_masked_str email_masked_str phone_masked_str take_eq_self_iff
      drop_eq_self_iff)

text \<open>
  Claim C7, as stated, fails: an email of six characters, a phone of four and a name of
  one appear complete in the masked output.
\<close>

theorem masking_exposes_short_value:
  "email_masked (StringV (str ''a@b.co'')) = StringV (str ''***'' @ str ''a@b.co'')
   \<and> phone_masked (StringV (str ''1234'')) = StringV (str ''***'' @ str ''1234'')
   \<and> full_name_masked (StringV (str ''A'')) = StringV (str ''A'' @ str ''***'')"
  by (simp add: email_masked_str phone_masked_str full_name_masked_str str_def)


section \<open>Null propagation\<close>

text \<open>
  Claim C5. A null is never encrypted, decrypted, hashed or masked: each function returns
  null on null, under every key and for every position and length of the mask; the digest
  of the string \<open>null\<close> is not null.
\<close>

theorem null_propagation:
  "encrypt_value f (now, iv) Null = Inr Null
   \<and> decrypt_one f Null = Inr Null
   \<and> decrypt_value f [Null] = Inr [Null]
   \<and> sha2_256 (cast_string Null) = Null
   \<and> sha2_256 (cast_string (StringV (str ''null''))) \<noteq> Null
   \<and> sql_concat (substr Null pos len) m = Null
   \<and> sql_concat m (substr Null pos len) = Null
   \<and> full_name_masked Null = Null \<and> email_masked Null = Null \<and> phone_masked Null = Null"
  by (simp add: decrypt_value_def substr_def sql_concat_def full_name_masked_def
      email_masked_def phone_masked_def split: cell.splits)

section \<open>The frame of the policy\<close>

lemma framedI:
  "columns df' = columns df \<Longrightarrow> length (rows df') = length (rows df) \<Longrightarrow>
   (\<And>j. j < length (rows df) \<Longrightarrow>
      filter (\<lambda>(c, v). P c) (zip (columns df) (rows df' ! j))
      = filter (\<lambda>(c, v). P c) (zip (columns df) (rows df ! j))) \<Longrightarrow> framed P df df'"
  by (simp add: framed_def list_all_iff)

lemma framedD:
  "framed P df df' \<Longrightarrow> j < length (rows df) \<Longrightarrow>
   filter (\<lambda>(c, v). P c) (zip (columns df) (rows df' ! j))
   = filter (\<lambda>(c, v). P c) (zip (columns df) (rows df ! j))"
  by (simp add: framed_def list_all_iff)

lemma framed_columns: "framed P df df' \<Longrightarrow> columns df' = columns df"
  by (simp add: framed_def)

lemma framed_length: "framed P df df' \<Longrightarrow> length (rows df') = length (rows df)"
  by (simp add: framed_def)

lemma framed_refl: "framed P df df"
  by (rule framedI) simp_all

lemma framed_trans:
  assumes ab: "framed P a b" and bc: "framed P b c"
  shows "framed P a c"
proof (rule framedI)
  show "columns c = columns a"
    using framed_columns [OF ab] framed_columns [OF bc] by simp
  show "length (rows c) = length (rows a)"
    using framed_length [OF ab] framed_length [OF bc] by simp
next
  fix j assume j: "j < length (rows a)"
  then have "j < length (rows b)" using framed_length [OF ab] by simp
  from framedD [OF bc this] framedD [OF ab j] framed_columns [OF ab]
  show "filter (\<lambda>(c, v). P c) (zip (columns a) (rows c ! j))
        = filter (\<lambda>(c, v). P c) (zip (columns a) (rows a ! j))"
    by simp
qed

lemma with_cell_frame:
  "with_cell name e cs r = Inr r' \<Longrightarrow> \<not> P name \<Longrightarrow>
   filter (\<lambda>(c, v). P c) (zip cs r') = filter (\<lambda>(c, v). P c) (zip cs r)"
proof (induction name e cs r arbitrary: r' rule: with_cell.induct)
  case (1 name e c cs v vs)
  from "1.prems"(1) obtain v' vs' where v': "(if c = name then e v else Inr v) = Inr v'"
    and vs': "with_cell name e cs vs = Inr vs'" and r': "r' = v' # vs'"
    by (auto simp: bind_e_Inr_iff)
  have "filter (\<lambda>(c, v). P c) (zip cs vs') = filter (\<lambda>(c, v). P c) (zip cs vs)"
    using "1.IH" [OF vs' "1.prems"(2)] .
  moreover have "P c \<Longrightarrow> v' = v" using v' "1.prems"(2) by (auto split: if_splits)
  ultimately show ?case by (simp add: r')
qed simp_all

lemma with_rows_frame:
  "with_rows name e cs i rs = Inr rs' \<Longrightarrow> \<not> P name \<Longrightarrow>
   length rs' = length rs \<and>
   (\<forall>j < length rs. filter (\<lambda>(c, v). P c) (zip cs (rs' ! j)) = filter (\<lambda>(c, v). P c) (zip cs (rs ! j)))"
proof (induction rs arbitrary: i rs')
  case Nil
  then show ?case by simp
next
  case (Cons r rs)
  from Cons.prems(1) obtain r' rs'' where r': "with_cell name (e i) cs r = Inr r'"
    and rs'': "with_rows name e cs (Suc i) rs = Inr rs''" and eq: "rs' = r' # rs''"
    by (auto simp: bind_e_Inr_iff)
  from Cons.IH [OF rs'' Cons.prems(2)] with_cell_frame [where P = P, OF r' Cons.prems(2)]
  show ?case by (auto simp: eq nth_Cons split: nat.splits)
qed

lemma withColumn_framed:
  "withColumn name e df = Inr df' \<Longrightarrow> \<not> P name \<Longrightarrow> framed P df df'"
  using with_rows_frame [of name e "columns df" 0 "rows df" _ P]
  by (auto simp: withColumn_def bind_e_Inr_iff intro!: framedI)

lemma column_loop_framed:
  "for_each names
     (\<lambda>name result. if name \<in> set (columns result) then withColumn name (e name) result
                     else Inr result) df = Inr df' \<Longrightarrow>
   \<forall>n \<in> set names. \<not> P n \<Longrightarrow> framed P df df'"
proof (induction names arbitrary: df)
  case Nil
  then show ?case by (simp add: framed_refl)
next
  case (Cons n names)
  from Cons.prems(1) obtain mid where
    mid: "(if n \<in> set (columns df) then withColumn n (e n) df else Inr df) = Inr mid"
    and rest: "for_each names
       (\<lambda>name result. if name \<in> set (columns result) then withColumn name (e name) result
                       else Inr result) mid = Inr df'"
    by (auto simp: bind_e_Inr_iff)
  have "framed P df mid"
    using mid Cons.prems(2) by (auto split: if_splits intro: withColumn_framed framed_refl)
  moreover have "framed P mid df'"
    using Cons.IH [OF rest] Cons.prems(2) by simp
  ultimately show ?case by (rule framed_trans)
qed

lemma zip_filter_snd:
  "zip (filter Q cs) (map snd (filter (\<lambda>(c, v). Q c) (zip cs r))) = filter (\<lambda>(c, v). Q c) (zip cs r)"
proof (induction cs arbitrary: r)
  case Nil
  then show ?case by simp
next
  case (Cons c cs)
  then show ?case by (cases r) simp_all
qed

lemma drop_column_frame:
  "\<not> P name \<Longrightarrow> j < length (rows df) \<Longrightarrow>
   filter (\<lambda>(c, v). P c) (zip (columns (drop_column name df)) (rows (drop_column name df) ! j))
   = filter (\<lambda>(c, v). P c) (zip (columns df) (rows df ! j))"
proof -
  assume np: "\<not> P name" and j: "j < length (rows df)"
  have "filter (\<lambda>(c, v). P c) (filter (\<lambda>(c, v). c \<noteq> name) (zip (columns df) (rows df ! j)))
        = filter (\<lambda>(c, v). P c) (zip (columns df) (rows df ! j))"
    using np by (auto simp: filter_filter intro!: filter_cong)
  then show ?thesis
    using j by (simp add: drop_column_def zip_filter_snd [where Q = "\<lambda>c. c \<noteq> name"])
qed

lemma drop_loop:
  "for_each drp
     (\<lambda>name result. if name \<in> set (columns result) then Inr (drop_column name result)
                     else Inr result) df = Inr df' \<Longrightarrow>
   columns df' = filter (\<lambda>c. c \<notin> set drp) (columns df) \<and> length (rows df') = length (rows df)
   \<and> ((\<forall>n \<in> set drp. \<not> P n) \<longrightarrow>
        (\<forall>j < length (rows df).
           filter (\<lambda>(c, v). P c) (zip (columns df') (rows df' ! j))
           = filter (\<lambda>(c, v). P c) (zip (columns df) (rows df ! j))))"
proof (induction drp arbitrary: df)
  case Nil
  then show ?case by simp
next
  case (Cons n drp)
  define mid where "mid = (if n \<in> set (columns df) then drop_column n df else df)"
  from Cons.prems have rest: "for_each drp
     (\<lambda>name result. if name \<in> set (columns result) then Inr (drop_column name result)
                     else Inr result) mid = Inr df'"
    by (simp add: mid_def split: if_splits)
  have cols: "columns mid = filter (\<lambda>c. c \<noteq> n) (columns df)"
  proof (cases "n \<in> set (columns df)")
    case True
    then show ?thesis by (simp add: mid_def drop_column_def)
  next
    case False
    then have "filter (\<lambda>c. c \<noteq> n) (columns df) = columns df"
      by (induction "columns df") (auto simp: filter_id_conv)
    with False show ?thesis by (simp add: mid_def)
  qed
  have len: "length (rows mid) = length (rows df)"
    by (simp add: mid_def drop_column_def)
  have frame: "\<not> P n \<Longrightarrow> j < length (rows df) \<Longrightarrow>
      filter (\<lambda>(c, v). P c) (zip (columns mid) (rows mid ! j))
      = filter (\<lambda>(c, v). P c) (zip (columns df) (rows df ! j))" for j
    by (simp add: mid_def drop_column_frame)
  note IH = Cons.IH [OF rest]
  have A: "columns df' = filter (\<lambda>c. c \<notin> set drp) (columns mid)"
    using IH by (rule conjunct1)
  have B: "length (rows df') = length (rows mid)"
    using IH by (rule conjunct1 [OF conjunct2])
  have C: "(\<forall>n \<in> set drp. \<not> P n) \<longrightarrow>
        (\<forall>j < length (rows mid).
           filter (\<lambda>(c, v). P c) (zip (columns df') (rows df' ! j))
           = filter (\<lambda>(c, v). P c) (zip (columns mid) (rows mid ! j)))"
    using IH by (rule conjunct2 [OF conjunct2])
  show ?case
  proof (intro conjI impI allI)
    show "columns df' = filter (\<lambda>c. c \<notin> set (n # drp)) (columns df)"
      by (auto simp: A cols filter_filter intro!: filter_cong)
    show "length (rows df') = length (rows df)"
      by (simp add: B len)
  next
    fix j assume all: "\<forall>n \<in> set (n # drp). \<not> P n" and j: "j < length (rows df)"
    from all C j len
    have "filter (\<lambda>(c, v). P c) (zip (columns df') (rows df' ! j))
           = filter (\<lambda>(c, v). P c) (zip (columns mid) (rows mid ! j))"
      by simp
    also have "\<dots> = filter (\<lambda>(c, v). P c) (zip (columns df) (rows df ! j))"
      using all j by (simp add: frame)
    finally show "filter (\<lambda>(c, v). P c) (zip (columns df') (rows df' ! j))
           = filter (\<lambda>(c, v). P c) (zip (columns df) (rows df ! j))" .
  qed
qed

lemma map_of_filter_key:
  "P k \<Longrightarrow> map_of (filter (\<lambda>(c, v). P c) xs) k = map_of xs k"
  by (induction xs) auto


text \<open>
  Claim C8. When the policy is applied without an exception, the columns of the result
  are those of the input in the same order, without the dropped ones; there are as many
  rows; and in every row the columns that stand in none of the three lists keep their
  order and their values, read by position or by name.
\<close>

theorem frame_property:
  assumes "apply_policy enc hsh drp f env df = Inr df'"
  shows "columns df' = filter (\<lambda>c. c \<notin> set drp) (columns df)
     \<and> length (rows df') = length (rows df)
     \<and> (\<forall>j < length (rows df).
          filter (\<lambda>(c, v). c \<notin> set enc \<union> set hsh \<union> set drp) (zip (columns df') (rows df' ! j))
          = filter (\<lambda>(c, v). c \<notin> set enc \<union> set hsh \<union> set drp) (zip (columns df) (rows df ! j))
          \<and> (\<forall>c. c \<notin> set enc \<union> set hsh \<union> set drp \<longrightarrow>
                map_of (zip (columns df') (rows df' ! j)) c = map_of (zip (columns df) (rows df ! j)) c))"
proof -
  let ?P = "\<lambda>c. c \<notin> set enc \<union> set hsh \<union> set drp"
  from assms obtain a b where
    a: "for_each enc
          (\<lambda>name result. if name \<in> set (columns result)
             then withColumn name (\<lambda>i. encrypt_value f (env name i)) result else Inr result) df = Inr a"
    and b: "for_each hsh
          (\<lambda>name result. if name \<in> set (columns result)
             then withColumn name (\<lambda>i v. Inr (sha2_256 (cast_string v))) result else Inr result) a = Inr b"
    and c: "for_each drp
          (\<lambda>name result. if name \<in> set (columns result) then Inr (drop_column name result)
             else Inr result) b = Inr df'"
    by (auto simp: apply_policy_def bind_e_Inr_iff)
  have fa: "framed ?P df a"
    by (rule column_loop_framed [OF a]) simp
  have fb: "framed ?P a b"
    by (rule column_loop_framed [OF b]) simp
  have fab: "framed ?P df b" by (rule framed_trans [OF fa fb])
  note dl = drop_loop [OF c, where P = ?P]
  have cols: "columns df' = filter (\<lambda>c. c \<notin> set drp) (columns b)"
    using dl by (rule conjunct1)
  have len: "length (rows df') = length (rows b)"
    using dl by (rule conjunct1 [OF conjunct2])
  have fr: "filter (\<lambda>(c, v). ?P c) (zip (columns df') (rows df' ! j))
           = filter (\<lambda>(c, v). ?P c) (zip (columns b) (rows b ! j))" if "j < length (rows b)" for j
    using conjunct2 [OF conjunct2 [OF dl]] that by blast
  have main: "filter (\<lambda>(c, v). ?P c) (zip (columns df') (rows df' ! j))
        = filter (\<lambda>(c, v). ?P c) (zip (columns df) (rows df ! j))" if j: "j < length (rows df)" for j
    using fr [of j] framedD [OF fab j] j framed_length [OF fab] framed_columns [OF fab] by simp
  have byname: "map_of (zip (columns df') (rows df' ! j)) c = map_of (zip (columns df) (rows df ! j)) c"
    if j: "j < length (rows df)" and c: "?P c" for j c
  proof -
    have "map_of (zip (columns df') (rows df' ! j)) c
          = map_of (filter (\<lambda>(c, v). ?P c) (zip (columns df') (rows df' ! j))) c"
      by (rule map_of_filter_key [where P = ?P, OF c, symmetric])
    also have "\<dots> = map_of (filter (\<lambda>(c, v). ?P c) (zip (columns df) (rows df ! j))) c"
      by (simp only: main [OF j])
    also have "\<dots> = map_of (zip (columns df) (rows df ! j)) c"
      by (rule map_of_filter_key [where P = ?P, OF c])
    finally show ?thesis .
  qed
  show ?thesis
    using cols len main byname framed_columns [OF fab] framed_length [OF fab] by auto
qed


theorem frame_property_witness:
  "apply_policy ENCRYPT_COLUMNS HASH_COLUMNS DROP_COLUMNS zero_key fixed_env sample_customers
     = Inr sample_customers
   \<and> columns sample_customers = filter (\<lambda>c. c \<notin> set DROP_COLUMNS) (columns sample_customers)
   \<and> map_of (zip (columns sample_customers) (rows sample_customers ! 0)) ''city''
       = Some (StringV (str ''Paris''))"
proof -
  have h: "apply_policy ENCRYPT_COLUMNS HASH_COLUMNS DROP_COLUMNS zero_key fixed_env
             sample_customers = Inr sample_customers"
    by (simp add: apply_policy_def ENCRYPT_COLUMNS_def HASH_COLUMNS_def DROP_COLUMNS_def
        sample_customers_def withColumn_def fixed_env_def)
  from frame_property [OF h] h show ?thesis
    by (simp add: sample_customers_def DROP_COLUMNS_def)
qed

section \<open>Failure of decryption\<close>

lemma length_hmac_sha256: "length (hmac_sha256 k m) = 32"
  by (simp add: hmac_sha256_def Let_def length_sha256)

lemma fernet_decrypt_error: "fernet_decrypt f token = Inl e \<Longrightarrow> e = InvalidToken"
  by (auto simp: fernet_decrypt_def Let_def split: option.splits if_splits)

lemma str_AAAA: "encode_utf8 (str ''AAAA'') = Inr [65, 65, 65, 65]"
  by (simp add: encode_utf8_def str_def surrogate_def utf8_bytes_def utf8_char_def)

lemma b64_value_A: "b64_value 65 = Some 0"
  by (simp add: b64_value_def)

lemma decode_AAAA: "urlsafe_b64decode [65, 65, 65, 65] = Some [0, 0, 0]"
  by (simp add: urlsafe_b64decode_def b64_value_A)

lemma decrypt_one_AAAA: "decrypt_one f (StringV (str ''AAAA'')) = Inl InvalidToken"
  by (simp add: str_AAAA fernet_decrypt_def decode_AAAA)

lemma col_simps:
  "col name \<lparr>columns = cs, rows = rs\<rparr> =
     (case index_of name cs of None \<Rightarrow> Inl AnalysisException | Some i \<Rightarrow> Inr (map (\<lambda>r. r ! i) rs))"
  by (simp add: col_def split: option.splits)

text \<open>
  Claim C4, as stated, fails: one malformed token in a batch leaves \<open>decrypt_value\<close>
  without any result, and the clear view over a table with one such cell fails as a
  whole; the row with the valid cells is not returned either.
\<close>

theorem corrupt_token_aborts_read:
  "decrypt_value zero_key [Null, StringV (str ''AAAA'')] = Inl InvalidToken
   \<and> v_customers_clear zero_key corrupt_bronze = Inl InvalidToken"
  by (simp add: decrypt_value_def str_AAAA fernet_decrypt_def decode_AAAA
      v_customers_clear_def corrupt_bronze_def col_simps)

lemma view_clear_fails:
  assumes "v \<in> set series" and "decrypt_one f v = Inl e"
    and "col ''full_name'' bronze = Inr series \<or> col ''email'' bronze = Inr series
         \<or> col ''phone'' bronze = Inr series"
  shows "\<exists>e'. v_customers_clear f bronze = Inl e'"
proof (cases "v_customers_clear f bronze")
  case (Inl e')
  then show ?thesis by blast
next
  case (Inr out)
  then have "\<exists>ys. decrypt_value f series = Inr ys"
    using assms(3) by (auto simp: v_customers_clear_def bind_e_Inr_iff)
  moreover have "\<exists>e'. decrypt_value f series = Inl e'"
    unfolding decrypt_value_def by (rule map_e_Inl [where g = "decrypt_one f", OF assms(1,2)])
  ultimately show ?thesis by auto
qed

lemma corrupt_fernet_decrypt: "corrupt f token \<Longrightarrow> fernet_decrypt f token = Inl InvalidToken"
  by (auto simp: corrupt_def fernet_decrypt_def split: option.splits)

lemma fernet_decrypt_Inr:
  "fernet_decrypt f token = Inr plain \<Longrightarrow>
   \<not> corrupt f token \<and>
   (\<exists>data. urlsafe_b64decode token = Some data
      \<and> pkcs7_unpad (cbc_decrypt (encryption_key f) (take 16 (drop 9 data))
            (take (length data - 32 - 25) (drop 25 data))) = Some plain)"
  by (auto simp: corrupt_def fernet_decrypt_def Let_def split: option.splits if_splits)

lemma decrypt_one_raises:
  "encode_utf8 s = Inr token \<Longrightarrow> fernet_decrypt f token = Inl e \<Longrightarrow>
   decrypt_one f (StringV s) = Inl e"
  by simp

lemma view_masked_fails:
  assumes "v \<in> set series" and "decrypt_one f v = Inl e"
    and "col ''full_name'' bronze = Inr series \<or> col ''email'' bronze = Inr series
         \<or> col ''phone'' bronze = Inr series"
  shows "\<exists>e'. v_customers_masked f bronze = Inl e'"
proof (cases "v_customers_masked f bronze")
  case (Inl e')
  then show ?thesis by blast
next
  case (Inr out)
  then have "\<exists>ys. decrypt_value f series = Inr ys"
    using assms(3) by (auto simp: v_customers_masked_def bind_e_Inr_iff)
  moreover have "\<exists>e'. decrypt_value f series = Inl e'"
    unfolding decrypt_value_def by (rule map_e_Inl [where g = "decrypt_one f", OF assms(1,2)])
  ultimately show ?thesis by auto
qed

text \<open>
  Claim C4, as amended. A corrupt token, one that does not decode or whose signature
  does not verify, makes \<open>Fernet.decrypt\<close> raise \<open>InvalidToken\<close>, its only error; a
  plaintext is returned only for a token that is not corrupt, after the padding has been
  removed, so never in part. \<open>_decrypt_one\<close> does not catch the exception: it fails with
  it on every such token. One corrupt token in a batch leaves \<open>decrypt_value\<close> without a
  result, and one in a decrypted column leaves both views without a result for the
  table.
\<close>

theorem corrupt_token_fails_whole_read:
  "(corrupt f token \<longrightarrow> fernet_decrypt f token = Inl InvalidToken)
   \<and> (\<forall>e. fernet_decrypt f token = Inl e \<longrightarrow> e = InvalidToken)
   \<and> (\<forall>plain. fernet_decrypt f token = Inr plain \<longrightarrow>
         \<not> corrupt f token \<and>
         (\<exists>data. urlsafe_b64decode token = Some data
            \<and> pkcs7_unpad (cbc_decrypt (encryption_key f) (take 16 (drop 9 data))
                  (take (length data - 32 - 25) (drop 25 data))) = Some plain))
   \<and> (\<forall>s e. encode_utf8 s = Inr token \<and> fernet_decrypt f token = Inl e \<longrightarrow>
         decrypt_one f (StringV s) = Inl e)
   \<and> (\<forall>s. encode_utf8 s = Inr token \<and> corrupt f token \<longrightarrow>
         decrypt_one f (StringV s) = Inl InvalidToken)
   \<and> (\<forall>s. encode_utf8 s = Inr token \<and> corrupt f token \<and> StringV s \<in> set series \<longrightarrow>
         (\<exists>e'. decrypt_value f series = Inl e'))
   \<and> (\<forall>s. encode_utf8 s = Inr token \<and> corrupt f token \<and> StringV s \<in> set series
          \<and> (col ''full_name'' bronze = Inr series \<or> col ''email'' bronze = Inr series
               \<or> col ''phone'' bronze = Inr series) \<longrightarrow>
         (\<exists>e'. v_customers_clear f bronze = Inl e') \<and> (\<exists>e'. v_customers_masked f bronze = Inl e'))
   \<and> (\<forall>v e. v \<in> set series \<and> decrypt_one f v = Inl e \<longrightarrow> (\<exists>e'. decrypt_value f series = Inl e'))
   \<and> (\<forall>v e. v \<in> set series \<and> decrypt_one f v = Inl e
          \<and> (col ''full_name'' bronze = Inr series \<or> col ''email'' bronze = Inr series
               \<or> col ''phone'' bronze = Inr series)
        \<longrightarrow> (\<exists>e'. v_customers_clear f bronze = Inl e'))"
proof (intro conjI allI impI)
  assume "corrupt f token"
  then show "fernet_decrypt f token = Inl InvalidToken" by (rule corrupt_fernet_decrypt)
next
  fix e assume "fernet_decrypt f token = Inl e"
  then show "e = InvalidToken" by (rule fernet_decrypt_error)
next
  fix plain assume p: "fernet_decrypt f token = Inr plain"
  show "\<not> corrupt f token" using fernet_decrypt_Inr [OF p] by (rule conjunct1)
  show "\<exists>data. urlsafe_b64decode token = Some data
            \<and> pkcs7_unpad (cbc_decrypt (encryption_key f) (take 16 (drop 9 data))
                  (take (length data - 32 - 25) (drop 25 data))) = Some plain"
    using fernet_decrypt_Inr [OF p] by (rule conjunct2)
next
  fix s e assume "encode_utf8 s = Inr token \<and> fernet_decrypt f token = Inl e"
  then show "decrypt_one f (StringV s) = Inl e" by (simp add: decrypt_one_raises)
next
  fix s assume "encode_utf8 s = Inr token \<and> corrupt f token"
  then show "decrypt_one f (StringV s) = Inl InvalidToken"
    by (simp add: decrypt_one_raises corrupt_fernet_decrypt)
next
  fix s assume a: "encode_utf8 s = Inr token \<and> corrupt f token \<and> StringV s \<in> set series"
  then have "decrypt_one f (StringV s) = Inl InvalidToken"
    by (simp add: decrypt_one_raises corrupt_fernet_decrypt)
  with a show "\<exists>e'. decrypt_value f series = Inl e'"
    unfolding decrypt_value_def using map_e_Inl [where g = "decrypt_one f"] by blast
next
  fix s assume a: "encode_utf8 s = Inr token \<and> corrupt f token \<and> StringV s \<in> set series
          \<and> (col ''full_name'' bronze = Inr series \<or> col ''email'' bronze = Inr series
               \<or> col ''phone'' bronze = Inr series)"
  then have d: "decrypt_one f (StringV s) = Inl InvalidToken"
    by (simp add: decrypt_one_raises corrupt_fernet_decrypt)
  from a have m: "StringV s \<in> set series" and c: "col ''full_name'' bronze = Inr series
      \<or> col ''email'' bronze = Inr series \<or> col ''phone'' bronze = Inr series"
    by simp_all
  show "\<exists>e'. v_customers_clear f bronze = Inl e'" by (rule view_clear_fails [OF m d c])
  show "\<exists>e'. v_customers_masked f bronze = Inl e'" by (rule view_masked_fails [OF m d c])
next
  fix v e assume "v \<in> set series \<and> decrypt_one f v = Inl e"
  then show "\<exists>e'. decrypt_value f series = Inl e'"
    unfolding decrypt_value_def using map_e_Inl [where g = "decrypt_one f"] by blast
next
  fix v e assume "v \<in> set series \<and> decrypt_one f v = Inl e
          \<and> (col ''full_name'' bronze = Inr series \<or> col ''email'' bronze = Inr series
               \<or> col ''phone'' bronze = Inr series)"
  then show "\<exists>e'. v_customers_clear f bronze = Inl e'"
    using view_clear_fails by blast
qed

theorem corrupt_token_fails_whole_read_witness:
  "encode_utf8 (str ''AAAA'') = Inr [65, 65, 65, 65]
   \<and> corrupt zero_key [65, 65, 65, 65]
   \<and> fernet_decrypt zero_key [65, 65, 65, 65] = Inl InvalidToken
   \<and> decrypt_one zero_key (StringV (str ''AAAA'')) = Inl InvalidToken
   \<and> (\<exists>e'. decrypt_value zero_key [Null, StringV (str ''AAAA'')] = Inl e')
   \<and> (\<exists>e'. v_customers_clear zero_key corrupt_bronze = Inl e')
   \<and> (\<exists>e'. v_customers_masked zero_key corrupt_bronze = Inl e')"
proof -
  have "length (hmac_sha256 (signing_key zero_key) (take (length [0, 0, 0 :: byte] - 32) [0, 0, 0]))
        \<noteq> length (drop (length [0, 0, 0 :: byte] - 32) [0, 0, 0 :: byte])"
    by (simp add: length_hmac_sha256)
  then have ne: "hmac_sha256 (signing_key zero_key) (take (length [0, 0, 0 :: byte] - 32) [0, 0, 0])
            \<noteq> drop (length [0, 0, 0 :: byte] - 32) [0, 0, 0]"
    by metis
  have co: "corrupt zero_key [65, 65, 65, 65]"
    unfolding corrupt_def decode_AAAA using ne by simp
  have c: "col ''full_name'' corrupt_bronze = Inr [Null, StringV (str ''AAAA'')]"
    by (simp add: corrupt_bronze_def col_simps)
  from corrupt_token_fails_whole_read
    [of zero_key "[65, 65, 65, 65]" "[Null, StringV (str ''AAAA'')]" corrupt_bronze]
    co c str_AAAA
  show ?thesis by auto
qed


section \<open>Base64 decodes what it encodes\<close>

lemma unat_of_nat_byte: "n < 256 \<Longrightarrow> unat (of_nat n :: byte) = n"
  by (simp add: unat_of_nat)

lemma unat_b64_char:
  "v < 64 \<Longrightarrow>
   unat (b64_char v) =
     (if v < 26 then 65 + v else if v < 52 then 71 + v else if v < 62 then v - 4
      else if v = 62 then 45 else 95)"
  by (simp add: b64_char_def unat_of_nat_byte del: of_nat_add of_nat_diff)

lemma b64_value_char: "v < 64 \<Longrightarrow> b64_value (b64_char v) = Some v"
proof -
  assume v: "v < 64"
  consider "v < 26" | "26 \<le> v" "v < 52" | "52 \<le> v" "v < 62" | "v = 62" | "v = 63"
    using v by linarith
  then show ?thesis
  proof cases
    case 1
    then show ?thesis using v by (auto simp: b64_value_def Let_def unat_b64_char)
  next
    case 2
    then show ?thesis using v by (auto simp: b64_value_def Let_def unat_b64_char)
  next
    case 3
    then show ?thesis using v by (auto simp: b64_value_def Let_def unat_b64_char)
  next
    case 4
    then show ?thesis by (simp add: b64_value_def Let_def unat_b64_char)
  next
    case 5
    then show ?thesis by (simp add: b64_value_def Let_def unat_b64_char)
  qed
qed

lemma b64_char_not_pad: "v < 64 \<Longrightarrow> b64_char v \<noteq> 61"
proof
  assume v: "v < 64" and "b64_char v = 61"
  then have "unat (b64_char v) = 61" by simp
  with v show False
    by (simp add: unat_b64_char split: if_splits)
qed

lemma a2b_digit:
  "v < 64 \<Longrightarrow>
   a2b_base64 q l p out (b64_char v # cs) =
     (if q = 0 then a2b_base64 1 v 0 out cs
      else if q = 1 then a2b_base64 2 (v mod 16) 0 (out @ [of_nat (l * 4 + v div 16)]) cs
      else if q = 2 then a2b_base64 3 (v mod 4) 0 (out @ [of_nat (l * 16 + v div 4)]) cs
      else a2b_base64 0 0 0 (out @ [of_nat (l * 64 + v)]) cs)"
  by (subst a2b_base64.simps(2))
    (simp only: b64_value_char b64_char_not_pad if_False option.case)

lemma a2b_pad:
  "a2b_base64 q l p out (61 # cs) =
     (if 2 \<le> q \<and> 4 \<le> q + (p + 1) then Some out
      else a2b_base64 q l (if 2 \<le> q then p + 1 else p) out cs)"
  by (subst a2b_base64.simps(2)) (simp only: simp_thms if_True)

lemma a2b_digit0:
  "v < 64 \<Longrightarrow> a2b_base64 0 l p out (b64_char v # cs) = a2b_base64 1 v 0 out cs"
  by (subst a2b_digit) (simp_all del: a2b_base64.simps)

lemma a2b_digit1:
  "v < 64 \<Longrightarrow> a2b_base64 1 l p out (b64_char v # cs)
     = a2b_base64 2 (v mod 16) 0 (out @ [of_nat (l * 4 + v div 16)]) cs"
  by (subst a2b_digit) (simp_all del: a2b_base64.simps of_nat_add of_nat_mult)

lemma a2b_digit2:
  "v < 64 \<Longrightarrow> a2b_base64 2 l p out (b64_char v # cs)
     = a2b_base64 3 (v mod 4) 0 (out @ [of_nat (l * 16 + v div 4)]) cs"
  by (subst a2b_digit) (simp_all del: a2b_base64.simps of_nat_add of_nat_mult)

lemma a2b_digit3:
  "v < 64 \<Longrightarrow> a2b_base64 3 l p out (b64_char v # cs)
     = a2b_base64 0 0 0 (out @ [of_nat (l * 64 + v)]) cs"
  by (subst a2b_digit) (simp_all del: a2b_base64.simps of_nat_add of_nat_mult)

lemma sextet_bounds:
  fixes a b c :: nat
  shows "a < 256 \<Longrightarrow> a div 4 < 64"
    and "a < 256 \<Longrightarrow> a mod 4 * 16 < 64"
    and "a < 256 \<Longrightarrow> b < 256 \<Longrightarrow> a mod 4 * 16 + b div 16 < 64"
    and "b < 256 \<Longrightarrow> b mod 16 * 4 < 64"
    and "b < 256 \<Longrightarrow> c < 256 \<Longrightarrow> b mod 16 * 4 + c div 64 < 64"
    and "c mod 64 < 64"
  by arith+

lemma sextet_join:
  fixes b c x :: nat
  shows "b < 256 \<Longrightarrow> (x * 16 + b div 16) div 16 = x"
    and "b < 256 \<Longrightarrow> (x * 16 + b div 16) mod 16 = b div 16"
    and "c < 256 \<Longrightarrow> (x * 4 + c div 64) div 4 = x"
    and "c < 256 \<Longrightarrow> (x * 4 + c div 64) mod 4 = c div 64"
  by simp_all

lemma sextet_small:
  fixes b c :: nat
  shows "b < 256 \<Longrightarrow> b div 16 div 16 = 0"
    and "b < 256 \<Longrightarrow> b div 16 mod 16 = b div 16"
    and "c < 256 \<Longrightarrow> c div 64 div 4 = 0"
    and "c < 256 \<Longrightarrow> c div 64 mod 4 = c div 64"
  by simp_all

lemma byte_of_parts:
  "(of_nat (unat a div 4 * 4 + unat a mod 4) :: byte) = a"
  "(of_nat (unat b div 16 * 16 + unat b mod 16) :: byte) = b"
  "(of_nat (unat c div 64 * 64 + unat c mod 64) :: byte) = c"
  by (simp_all only: div_mult_mod_eq of_nat_unat ucast_id)

lemma b64_group:
  "a2b_base64 0 0 0 out
     (b64_char (unat a div 4) # b64_char (unat a mod 4 * 16 + unat b div 16)
        # b64_char (unat b mod 16 * 4 + unat c div 64) # b64_char (unat c mod 64) # cs)
   = a2b_base64 0 0 0 (out @ [a, b, c]) cs"
proof -
  note lt = unat_byte_less [of a] unat_byte_less [of b] unat_byte_less [of c]
  have "a2b_base64 0 0 0 out
     (b64_char (unat a div 4) # b64_char (unat a mod 4 * 16 + unat b div 16)
        # b64_char (unat b mod 16 * 4 + unat c div 64) # b64_char (unat c mod 64) # cs)
     = a2b_base64 1 (unat a div 4) 0 out
     (b64_char (unat a mod 4 * 16 + unat b div 16)
        # b64_char (unat b mod 16 * 4 + unat c div 64) # b64_char (unat c mod 64) # cs)"
    by (simp only: a2b_digit0 [OF sextet_bounds(1) [OF lt(1)]])
  also have "\<dots> = a2b_base64 2 (unat b div 16) 0 (out @ [a])
     (b64_char (unat b mod 16 * 4 + unat c div 64) # b64_char (unat c mod 64) # cs)"
    by (subst a2b_digit1 [OF sextet_bounds(3) [OF lt(1) lt(2)]])
      (simp add: sextet_join sextet_small lt byte_of_parts del: a2b_base64.simps of_nat_add of_nat_mult)
  also have "\<dots> = a2b_base64 3 (unat c div 64) 0 (out @ [a, b])
     (b64_char (unat c mod 64) # cs)"
    by (subst a2b_digit2 [OF sextet_bounds(5) [OF lt(2) lt(3)]])
      (simp add: sextet_join sextet_small lt byte_of_parts del: a2b_base64.simps of_nat_add of_nat_mult)
  also have "\<dots> = a2b_base64 0 0 0 (out @ [a, b, c]) cs"
    by (subst a2b_digit3 [OF sextet_bounds(6)])
      (simp add: byte_of_parts del: a2b_base64.simps of_nat_add of_nat_mult)
  finally show ?thesis .
qed

lemma b64_tail1:
  "a2b_base64 0 0 0 out [b64_char (unat a div 4), b64_char (unat a mod 4 * 16), 61, 61]
   = Some (out @ [a])"
proof -
  note lt = unat_byte_less [of a]
  have "a2b_base64 0 0 0 out [b64_char (unat a div 4), b64_char (unat a mod 4 * 16), 61, 61]
     = a2b_base64 1 (unat a div 4) 0 out [b64_char (unat a mod 4 * 16), 61, 61]"
    by (simp only: a2b_digit0 [OF sextet_bounds(1) [OF lt]])
  also have "\<dots> = a2b_base64 2 0 0 (out @ [a]) [61, 61]"
    by (subst a2b_digit1 [OF sextet_bounds(2) [OF lt]])
      (simp add: byte_of_parts del: a2b_base64.simps of_nat_add of_nat_mult)
  also have "\<dots> = a2b_base64 2 0 1 (out @ [a]) [61]"
    by (subst a2b_pad) simp
  also have "\<dots> = Some (out @ [a])"
    by (subst a2b_pad) simp
  finally show ?thesis .
qed

lemma b64_tail2:
  "a2b_base64 0 0 0 out
     [b64_char (unat a div 4), b64_char (unat a mod 4 * 16 + unat b div 16),
      b64_char (unat b mod 16 * 4), 61]
   = Some (out @ [a, b])"
proof -
  note lt = unat_byte_less [of a] unat_byte_less [of b]
  have "a2b_base64 0 0 0 out
     [b64_char (unat a div 4), b64_char (unat a mod 4 * 16 + unat b div 16),
      b64_char (unat b mod 16 * 4), 61]
     = a2b_base64 1 (unat a div 4) 0 out
     [b64_char (unat a mod 4 * 16 + unat b div 16), b64_char (unat b mod 16 * 4), 61]"
    by (simp only: a2b_digit0 [OF sextet_bounds(1) [OF lt(1)]])
  also have "\<dots> = a2b_base64 2 (unat b div 16) 0 (out @ [a]) [b64_char (unat b mod 16 * 4), 61]"
    by (subst a2b_digit1 [OF sextet_bounds(3) [OF lt(1) lt(2)]])
      (simp add: sextet_join sextet_small lt byte_of_parts del: a2b_base64.simps of_nat_add of_nat_mult)
  also have "\<dots> = a2b_base64 3 0 0 (out @ [a, b]) [61]"
    by (subst a2b_digit2 [OF sextet_bounds(4) [OF lt(2)]])
      (simp add: byte_of_parts del: a2b_base64.simps of_nat_add of_nat_mult)
  also have "\<dots> = Some (out @ [a, b])"
    by (subst a2b_pad) simp
  finally show ?thesis .
qed

lemma a2b_encode: "a2b_base64 0 0 0 out (urlsafe_b64encode bs) = Some (out @ bs)"
proof (induction bs arbitrary: out rule: urlsafe_b64encode.induct)
  case 1
  then show ?case by simp
next
  case (2 a)
  show ?case by (simp only: urlsafe_b64encode.simps b64_tail1)
next
  case (3 a b)
  show ?case by (simp only: urlsafe_b64encode.simps b64_tail2)
next
  case (4 a b c bs)
  show ?case
    by (simp only: urlsafe_b64encode.simps append_Cons append_Nil b64_group "4.IH" append_assoc)
qed

lemma urlsafe_b64_roundtrip: "urlsafe_b64decode (urlsafe_b64encode bs) = Some bs"
  by (simp add: urlsafe_b64decode_def a2b_encode)

section \<open>The hashing loop\<close>

text \<open>The SHA-256 of the three characters \<open>123\<close>, computed by the definitions above.\<close>

lemma sha256_123:
  "sha256 [49, 50, 51] =
    [166, 101, 164, 89, 32, 66, 47, 157, 65, 126, 72, 103, 239, 220, 79, 184,
     160, 74, 31, 63, 255, 31, 160, 126, 153, 142, 134, 247, 247, 162, 122, 227]"
  by code_simp

lemma digest_123:
  "sha2_256 (cast_string (LongV 123))
   = StringV (str ''a665a45920422f9d417e4867efdc4fb8a04a1f3fff1fa07e998e86f7f7a27ae3'')"
  by (simp add: decimal_123 utf8_bytes_def utf8_char_def str_def sha256_123 hex_def hex_byte_def
      hex_digit_def)

lemma with_cell_pure:
  "with_cell name (\<lambda>v. Inr (g v)) cs r = Inr (map (\<lambda>(c, v). if c = name then g v else v) (zip cs r))"
  by (induction name "\<lambda>v. (Inr (g v) :: error + cell)" cs r rule: with_cell.induct) simp_all

lemma with_rows_pure:
  "with_rows name (\<lambda>i v. Inr (g v)) cs i rs
   = Inr (map (\<lambda>r. map (\<lambda>(c, v). if c = name then g v else v) (zip cs r)) rs)"
  by (induction rs arbitrary: i) (simp_all add: with_cell_pure)

lemma hashing_loop_one:
  "apply_policy [] [c] [] f env df =
     Inr (if c \<in> set (columns df)
          then df\<lparr>rows := map (hash_cells c (columns df)) (rows df)\<rparr> else df)"
  by (simp add: apply_policy_def withColumn_def with_rows_pure hash_cells_def)

lemma map_of_hash_cells:
  "map_of (zip cs (hash_cells name cs r)) name
   = map_option (\<lambda>v. sha2_256 (cast_string v)) (map_of (zip cs r) name)"
proof (induction cs arbitrary: r)
  case Nil
  then show ?case by (simp add: hash_cells_def)
next
  case (Cons c cs)
  show ?case
  proof (cases r)
    case Nil
    then show ?thesis by (simp add: hash_cells_def)
  next
    case (Cons v vs)
    with Cons.IH [of vs] show ?thesis by (simp add: hash_cells_def)
  qed
qed

lemma framed_map_of:
  "framed P df df' \<Longrightarrow> j < length (rows df) \<Longrightarrow> P c \<Longrightarrow>
   map_of (zip (columns df') (rows df' ! j)) c = map_of (zip (columns df) (rows df ! j)) c"
proof -
  assume fr: "framed P df df'" and j: "j < length (rows df)" and c: "P c"
  have "map_of (zip (columns df') (rows df' ! j)) c
        = map_of (filter (\<lambda>(c, v). P c) (zip (columns df) (rows df' ! j))) c"
    by (simp only: framed_columns [OF fr] map_of_filter_key [where P = P, OF c])
  also have "\<dots> = map_of (filter (\<lambda>(c, v). P c) (zip (columns df) (rows df ! j))) c"
    by (simp only: framedD [OF fr j])
  also have "\<dots> = map_of (zip (columns df) (rows df ! j)) c"
    by (rule map_of_filter_key [where P = P, OF c])
  finally show ?thesis .
qed

lemma notebook_hash_column:
  assumes ok: "apply_pii_policy f env df = Inr df'" and j: "j < length (rows df)"
  shows "columns df' = columns df \<and> length (rows df') = length (rows df)
     \<and> map_of (zip (columns df') (rows df' ! j)) ''national_id''
       = map_option (\<lambda>v. sha2_256 (cast_string v))
           (map_of (zip (columns df) (rows df ! j)) ''national_id'')"
proof -
  let ?P = "\<lambda>c. c = ''national_id''"
  from ok obtain a where
    a: "for_each ENCRYPT_COLUMNS
          (\<lambda>name result. if name \<in> set (columns result)
             then withColumn name (\<lambda>i. encrypt_value f (env name i)) result else Inr result) df = Inr a"
    and b: "apply_policy [] HASH_COLUMNS [] f env a = Inr df'"
    by (auto simp: apply_pii_policy_def apply_policy_def bind_e_Inr_iff DROP_COLUMNS_def)
  have fa: "framed ?P df a"
    by (rule column_loop_framed [OF a]) (simp add: ENCRYPT_COLUMNS_def)
  have ja: "j < length (rows a)" using j framed_length [OF fa] by simp
  have df': "df' = (if ''national_id'' \<in> set (columns a)
          then a\<lparr>rows := map (hash_cells ''national_id'' (columns a)) (rows a)\<rparr> else a)"
    using b by (simp add: hashing_loop_one HASH_COLUMNS_def)
  have cols: "columns df' = columns a" and len: "length (rows df') = length (rows a)"
    by (simp_all add: df')
  have "map_of (zip (columns df') (rows df' ! j)) ''national_id''
       = map_option (\<lambda>v. sha2_256 (cast_string v))
           (map_of (zip (columns a) (rows a ! j)) ''national_id'')"
  proof (cases "''national_id'' \<in> set (columns a)")
    case True
    then show ?thesis using ja by (simp add: df' map_of_hash_cells)
  next
    case False
    then have "map_of (zip (columns a) (rows a ! j)) ''national_id'' = None"
      by (auto simp: map_of_eq_None_iff dest: set_zip_leftD)
    with False show ?thesis by (simp add: df')
  qed
  also have "map_of (zip (columns a) (rows a ! j)) ''national_id''
             = map_of (zip (columns df) (rows df ! j)) ''national_id''"
    by (rule framed_map_of [OF fa j]) simp
  finally show ?thesis
    using cols len framed_columns [OF fa] framed_length [OF fa] by simp
qed


lemma hex_sha256_123:
  "hex (sha256 (utf8_bytes (str ''123''))) = str ''a665a45920422f9d417e4867efdc4fb8a04a1f3fff1fa07e998e86f7f7a27ae3''"
  by (simp add: utf8_bytes_def utf8_char_def str_def sha256_123 hex_def hex_byte_def hex_digit_def)

text \<open>
  Claim C10. The hashing loop stores \<open>sha2(cast(v as string), 256)\<close>. Whenever the notebook's
  policy returns a frame, the \<open>national_id\<close> cell of every row is that digest of the input
  cell; the loop for one column rewrites exactly the cells of that column, on any frame.
  Two values with the same string rendering are stored alike: the number 123 and the
  string \<open>123\<close> both become the SHA-256 of \<open>123\<close>, \<open>a665a459...a27ae3\<close>. The digest is
  null exactly for a null, and otherwise 64 hexadecimal characters.
\<close>

theorem sha2_over_string_cast:
  "(\<forall>df' j. apply_pii_policy f env df = Inr df' \<and> j < length (rows df) \<longrightarrow>
       columns df' = columns df \<and> length (rows df') = length (rows df)
       \<and> map_of (zip (columns df') (rows df' ! j)) ''national_id''
         = map_option (\<lambda>v. sha2_256 (cast_string v))
             (map_of (zip (columns df) (rows df ! j)) ''national_id''))
   \<and> apply_policy [] [c] [] f env df =
       Inr (if c \<in> set (columns df)
            then df\<lparr>rows := map (hash_cells c (columns df)) (rows df)\<rparr> else df)
   \<and> (cast_string v = cast_string v' \<longrightarrow>
        apply_policy [] [c] [] f env \<lparr>columns = [c], rows = [[v]]\<rparr>
        = apply_policy [] [c] [] f env \<lparr>columns = [c], rows = [[v']]\<rparr>)
   \<and> apply_policy [] [c] [] f env \<lparr>columns = [c], rows = [[LongV 123], [StringV (str ''123'')]]\<rparr>
       = Inr \<lparr>columns = [c],
              rows = [[StringV (str ''a665a45920422f9d417e4867efdc4fb8a04a1f3fff1fa07e998e86f7f7a27ae3'')],
                      [StringV (str ''a665a45920422f9d417e4867efdc4fb8a04a1f3fff1fa07e998e86f7f7a27ae3'')]]\<rparr>
   \<and> (sha2_256 (cast_string v) = Null \<longleftrightarrow> v = Null)
   \<and> (\<forall>d. sha2_256 (cast_string v) = StringV d \<longrightarrow>
         length d = 64 \<and> set d \<subseteq> hex_chars
         \<and> (\<exists>s. cast_string v = StringV s \<and> d = hex (sha256 (utf8_bytes s))))"
proof (intro conjI impI allI)
  fix df' j assume "apply_pii_policy f env df = Inr df' \<and> j < length (rows df)"
  then have ok: "apply_pii_policy f env df = Inr df'" and j: "j < length (rows df)" by simp_all
  note nb = notebook_hash_column [OF ok j]
  show "columns df' = columns df" using nb by (rule conjunct1)
  show "length (rows df') = length (rows df)" using nb by (rule conjunct1 [OF conjunct2])
  show "map_of (zip (columns df') (rows df' ! j)) ''national_id''
         = map_option (\<lambda>v. sha2_256 (cast_string v))
             (map_of (zip (columns df) (rows df ! j)) ''national_id'')"
    using nb by (rule conjunct2 [OF conjunct2])
next
  show "apply_policy [] [c] [] f env df =
       Inr (if c \<in> set (columns df)
            then df\<lparr>rows := map (hash_cells c (columns df)) (rows df)\<rparr> else df)"
    by (rule hashing_loop_one)
next
  assume "cast_string v = cast_string v'"
  then show "apply_policy [] [c] [] f env \<lparr>columns = [c], rows = [[v]]\<rparr>
        = apply_policy [] [c] [] f env \<lparr>columns = [c], rows = [[v']]\<rparr>"
    by (simp add: hashing_loop_one hash_cells_def)
next
  show "apply_policy [] [c] [] f env \<lparr>columns = [c], rows = [[LongV 123], [StringV (str ''123'')]]\<rparr>
       = Inr \<lparr>columns = [c],
              rows = [[StringV (str ''a665a45920422f9d417e4867efdc4fb8a04a1f3fff1fa07e998e86f7f7a27ae3'')],
                      [StringV (str ''a665a45920422f9d417e4867efdc4fb8a04a1f3fff1fa07e998e86f7f7a27ae3'')]]\<rparr>"
    by (simp add: hashing_loop_one hash_cells_def decimal_123 hex_sha256_123)
next
  show "sha2_256 (cast_string v) = Null \<longleftrightarrow> v = Null"
    by (cases v) simp_all
next
  fix d assume d: "sha2_256 (cast_string v) = StringV d"
  then obtain s where s: "cast_string v = StringV s"
    by (cases "cast_string v") simp_all
  with d have "d = hex (sha256 (utf8_bytes s))" by simp
  moreover from this have "length d = 64" by (simp add: length_hex length_sha256)
  moreover from \<open>d = hex (sha256 (utf8_bytes s))\<close> have "set d \<subseteq> hex_chars"
    by (simp add: set_hex)
  ultimately show "length d = 64" "set d \<subseteq> hex_chars"
    "\<exists>s. cast_string v = StringV s \<and> d = hex (sha256 (utf8_bytes s))"
    using s by simp_all
qed

theorem sha2_over_string_cast_witness:
  "apply_pii_policy zero_key fixed_env hashed_sample
     = Inr \<lparr>columns = [''customer_id'', ''full_name'', ''national_id'', ''city''],
            rows = [[LongV 7, Null,
                     StringV (str ''a665a45920422f9d417e4867efdc4fb8a04a1f3fff1fa07e998e86f7f7a27ae3''),
                     StringV (str ''Paris'')]]\<rparr>
   \<and> map_of (zip (columns hashed_sample) (rows hashed_sample ! 0)) ''national_id'' = Some (LongV 123)
   \<and> cast_string (LongV 123) = cast_string (StringV (str ''123''))
   \<and> sha2_256 (cast_string (LongV 123)) = sha2_256 (cast_string (StringV (str ''123'')))"
proof -
  have h: "apply_pii_policy zero_key fixed_env hashed_sample
     = Inr \<lparr>columns = [''customer_id'', ''full_name'', ''national_id'', ''city''],
            rows = [[LongV 7, Null,
                     StringV (str ''a665a45920422f9d417e4867efdc4fb8a04a1f3fff1fa07e998e86f7f7a27ae3''),
                     StringV (str ''Paris'')]]\<rparr>"
    by (simp add: apply_pii_policy_def apply_policy_def ENCRYPT_COLUMNS_def HASH_COLUMNS_def
        DROP_COLUMNS_def hashed_sample_def withColumn_def fixed_env_def decimal_123 hex_sha256_123)
  from sha2_over_string_cast [of zero_key fixed_env hashed_sample "''national_id''" "LongV 123"
      "StringV (str ''123'')"] h
  show ?thesis by (simp add: hashed_sample_def decimal_123)
qed

section \<open>Policy validation\<close>














section \<open>The masked view\<close>






end
